theory Spec2Isabelle
  imports Complex_Main "HOL-Library.Log_Nat" "HOL-Library.Char_ord" "HOL-Library.List_Lexorder"
    "HOL-Library.Multiset"
begin

section \<open>JavaScript numbers: IEEE 754 binary64\<close>

text \<open>
  A JavaScript number is a binary64 value: a finite one, \<open>Fin q\<close> with \<open>q\<close> the rational
  it equals (\<open>Fin 0\<close> is \<open>+0\<close>), the negative zero, an infinity, or \<open>NaN\<close>. Every
  arithmetic operation computes the exact result and rounds it to the nearest binary64
  value, a tie going to the even significand; \<open>fl\<close> is that rounding.
\<close>

datatype number = Fin rat | NegZero | PosInf | NegInf | NaN

definition pow2 :: "int \<Rightarrow> rat" where
  "pow2 e = (if 0 \<le> e then 2 ^ nat e else 1 / 2 ^ nat (- e))"

text \<open>The binary exponent of \<open>q \<noteq> 0\<close>: \<open>pow2 (exponent q) \<le> \<bar>q\<bar> < pow2 (exponent q + 1)\<close>.\<close>

definition exponent :: "rat \<Rightarrow> int" where
  "exponent q =
     (let (a, b) = quotient_of \<bar>q\<bar>; e = bitlen a - bitlen b
      in if pow2 e \<le> \<bar>q\<bar> then e else e - 1)"

text \<open>Rounding to the nearest integer, a tie going to the even one.\<close>

definition round_even :: "rat \<Rightarrow> int" where
  "round_even x =
     (let n = \<lfloor>x\<rfloor>; r = x - of_int n
      in if r < 1 / 2 then n else if 1 / 2 < r then n + 1 else if even n then n else n + 1)"

text \<open>
  The unit in the last place of the binary64 values around \<open>q\<close>, as a power of two:
  53 significant bits, and no exponent below the one of the subnormal numbers.
\<close>

definition quantum :: "rat \<Rightarrow> int" where
  "quantum q = max (exponent q - 52) (- 1074)"

definition rnd :: "rat \<Rightarrow> rat" where
  "rnd q = (if q = 0 then 0 else of_int (round_even (q / pow2 (quantum q))) * pow2 (quantum q))"

text \<open>\<open>2 ^ 1024\<close>: a rounded result of this magnitude overflows to an infinity.\<close>

definition overflow_threshold :: rat where
  "overflow_threshold = 0x10000000000000000000000000000000000000000000000000000000000000000000000000000000000000000000000000000000000000000000000000000000000000000000000000000000000000000000000000000000000000000000000000000000000000000000000000000000000000000000000000000000000000000"

definition fl :: "rat \<Rightarrow> number" where
  "fl q =
     (let r = rnd q
      in if overflow_threshold \<le> r then PosInf
         else if r \<le> - overflow_threshold then NegInf
         else if r = 0 \<and> q < 0 then NegZero
         else Fin r)"

text \<open>
  The number a decimal literal of the source denotes (\<open>0.12\<close> is \<open>lit (12 / 100)\<close>),
  and the rationals that are finite binary64 values.
\<close>

definition lit :: "rat \<Rightarrow> number" where
  "lit q = fl q"

definition is_double :: "rat \<Rightarrow> bool" where
  "is_double q \<longleftrightarrow> rnd q = q \<and> \<bar>q\<bar> < overflow_threshold"

text \<open>The sign of a number, its value when it is finite, and the signed results.\<close>

fun is_neg :: "number \<Rightarrow> bool" where
  "is_neg (Fin q) = (q < 0)"
| "is_neg NegZero = True"
| "is_neg NegInf = True"
| "is_neg PosInf = False"
| "is_neg NaN = False"

fun finite_value :: "number \<Rightarrow> rat option" where
  "finite_value (Fin q) = Some q"
| "finite_value NegZero = Some 0"
| "finite_value _ = None"

definition signed_zero :: "bool \<Rightarrow> number" where
  "signed_zero negative = (if negative then NegZero else Fin 0)"

definition signed_inf :: "bool \<Rightarrow> number" where
  "signed_inf negative = (if negative then NegInf else PosInf)"

text \<open>\<open>x === 0\<close>: true of both zeros.\<close>

fun is_zero :: "number \<Rightarrow> bool" where
  "is_zero (Fin q) = (q = 0)"
| "is_zero NegZero = True"
| "is_zero _ = False"

text \<open>
  \<open>x * y\<close>. An exact zero has the sign of the operands' signs together; an infinity
  times a zero is \<open>NaN\<close>.
\<close>

definition fmul :: "number \<Rightarrow> number \<Rightarrow> number" where
  "fmul x y =
     (case (finite_value x, finite_value y) of
        (Some a, Some b) \<Rightarrow>
          if a * b = 0 then signed_zero (is_neg x \<noteq> is_neg y) else fl (a * b)
      | _ \<Rightarrow>
          if x = NaN \<or> y = NaN \<or> is_zero x \<or> is_zero y then NaN
          else signed_inf (is_neg x \<noteq> is_neg y))"

text \<open>
  \<open>x / y\<close>. A non-zero number over a zero is an infinity, a finite number over an
  infinity is a zero; \<open>0 / 0\<close> and an infinity over an infinity are \<open>NaN\<close>.
\<close>

definition fdiv :: "number \<Rightarrow> number \<Rightarrow> number" where
  "fdiv x y =
     (case (finite_value x, finite_value y) of
        (Some a, Some b) \<Rightarrow>
          if b = 0 then (if a = 0 then NaN else signed_inf (is_neg x \<noteq> is_neg y))
          else if a = 0 then signed_zero (is_neg x \<noteq> is_neg y)
          else fl (a / b)
      | (Some a, None) \<Rightarrow> if y = NaN then NaN else signed_zero (is_neg x \<noteq> is_neg y)
      | (None, Some b) \<Rightarrow> if x = NaN then NaN else signed_inf (is_neg x \<noteq> is_neg y)
      | (None, None) \<Rightarrow> NaN)"

text \<open>
  \<open>x + y\<close>. An exact zero is \<open>+0\<close>, but \<open>-0 + -0\<close>; opposite infinities give
  \<open>NaN\<close>. \<open>x - y\<close> is \<open>x + (-y)\<close>.
\<close>

definition fadd :: "number \<Rightarrow> number \<Rightarrow> number" where
  "fadd x y =
     (case (finite_value x, finite_value y) of
        (Some a, Some b) \<Rightarrow>
          if a + b = 0 then (if x = NegZero \<and> y = NegZero then NegZero else Fin 0)
          else fl (a + b)
      | _ \<Rightarrow>
          if x = NaN \<or> y = NaN then NaN
          else if (x = PosInf \<and> y = NegInf) \<or> (x = NegInf \<and> y = PosInf) then NaN
          else if finite_value x = None then x else y)"

fun fneg :: "number \<Rightarrow> number" where
  "fneg (Fin q) = (if q = 0 then NegZero else Fin (- q))"
| "fneg NegZero = Fin 0"
| "fneg PosInf = NegInf"
| "fneg NegInf = PosInf"
| "fneg NaN = NaN"

definition fsub :: "number \<Rightarrow> number \<Rightarrow> number" where
  "fsub x y = fadd x (fneg y)"

text \<open>\<open>x < y\<close> and \<open>x <= y\<close>: false as soon as one side is \<open>NaN\<close>; the zeros are equal.\<close>

fun nlt :: "number \<Rightarrow> number \<Rightarrow> bool" where
  "nlt NaN _ = False"
| "nlt _ NaN = False"
| "nlt PosInf _ = False"
| "nlt _ NegInf = False"
| "nlt NegInf _ = True"
| "nlt _ PosInf = True"
| "nlt x y = (the (finite_value x) < the (finite_value y))"

fun nle :: "number \<Rightarrow> number \<Rightarrow> bool" where
  "nle NaN _ = False"
| "nle _ NaN = False"
| "nle NegInf _ = True"
| "nle _ PosInf = True"
| "nle PosInf _ = False"
| "nle _ NegInf = False"
| "nle x y = (the (finite_value x) \<le> the (finite_value y))"

text \<open>
  \<open>Math.round\<close>: the nearest integer, a tie going to the larger one
  (\<open>Math.round(2.5)\<close> is \<open>3\<close>, \<open>Math.round(-2.5)\<close> is \<open>-2\<close>); from \<open>-0.5\<close> up to
  \<open>-0\<close> the result is \<open>-0\<close>. The result is exact: a binary64 value of magnitude
  \<open>2 ^ 52\<close> or more is an integer already.
\<close>

fun Math_round :: "number \<Rightarrow> number" where
  "Math_round (Fin q) =
     (let n = \<lfloor>q + 1 / 2\<rfloor> in if n = 0 \<and> q < 0 then NegZero else Fin (of_int n))"
| "Math_round x = x"

section \<open>Objects\<close>

text \<open>
  The value of a property read \<open>obj[key]\<close>: \<open>undefined\<close>, a number, or an object
  (a function included). \<open>ToNumber\<close> is the conversion that \<open>*\<close> applies to an operand;
  for the functions of \<open>Object.prototype\<close> and for \<open>Object.prototype\<close> itself it
  gives \<open>NaN\<close>.
\<close>

datatype jsval = Undefined | Num number | Obj

fun ToNumber :: "jsval \<Rightarrow> number" where
  "ToNumber (Num n) = n"
| "ToNumber Undefined = NaN"
| "ToNumber Obj = NaN"

text \<open>
  The properties every object literal inherits from \<open>Object.prototype\<close> (the
  standard ones, and the legacy ones every browser has). All are functions, but
  \<open>__proto__\<close>, which reads as \<open>Object.prototype\<close>.
\<close>

definition Object_prototype :: "string list" where
  "Object_prototype =
     [''constructor'', ''hasOwnProperty'', ''isPrototypeOf'', ''propertyIsEnumerable'',
      ''toLocaleString'', ''toString'', ''valueOf'', ''__proto__'',
      ''__defineGetter__'', ''__defineSetter__'', ''__lookupGetter__'', ''__lookupSetter__'']"

text \<open>
  An object literal with numeric values is the list of its own properties, in the order
  they are written, each with its decimal literal. \<open>get_property\<close> is \<open>obj[key]\<close>: an
  own property first, then the prototype. \<open>Object_keys\<close> is \<open>Object.keys(obj)\<close>: the
  own keys, in that order.
\<close>

type_synonym object_literal = "(string \<times> rat) list"

definition get_property :: "object_literal \<Rightarrow> string \<Rightarrow> jsval" where
  "get_property obj k =
     (case map_of obj k of
        Some v \<Rightarrow> Num (lit v)
      | None \<Rightarrow> if k \<in> set Object_prototype then Obj else Undefined)"

definition Object_keys :: "object_literal \<Rightarrow> string list" where
  "Object_keys obj = map fst obj"

section \<open>CONFIG\<close>

definition EMISSION_FACTORS :: object_literal where
  "EMISSION_FACTORS =
     [(''bicycle'', 0),
      (''car'', 12 / 100),
      (''plane'', 20 / 100),
      (''boat'', 15 / 100),
      (''bus'', 89 / 1000),
      (''truck'', 96 / 100)]"

definition KG_PER_CREDIT :: number where
  "KG_PER_CREDIT = Fin 1000"

definition PRICE_MIN_BRL :: number where
  "PRICE_MIN_BRL = Fin 50"

definition PRICE_MAX_BRL :: number where
  "PRICE_MAX_BRL = Fin 150"

section \<open>Calculator\<close>

definition calculateEmission :: "number \<Rightarrow> string \<Rightarrow> number" where
  "calculateEmission distanceKm transportMode =
     (if nlt distanceKm (Fin 0) \<or> transportMode = [] then Fin 0
      else
        let emissionFactor = get_property EMISSION_FACTORS transportMode in
        if emissionFactor = Undefined then Fin 0
        else
          let emission = fmul distanceKm (ToNumber emissionFactor) in
          fdiv (Math_round (fmul emission (Fin 100))) (Fin 100))"

record comparison =
  mode :: string
  emission :: number
  percentageVsCar :: number

text \<open>
  \<open>results.sort((a, b) => a.emission - b.emission)\<close>. The sort of an array is
  stable, and an element goes before another one when the comparator is negative;
  a comparator that is \<open>NaN\<close> counts as \<open>0\<close>. With a consistent comparator the
  result is the one of this insertion sort.
\<close>

definition compareFn :: "comparison \<Rightarrow> comparison \<Rightarrow> number" where
  "compareFn a b = fsub (emission a) (emission b)"

fun insert_result :: "comparison \<Rightarrow> comparison list \<Rightarrow> comparison list" where
  "insert_result x [] = [x]"
| "insert_result x (y # ys) =
     (if nlt (Fin 0) (compareFn x y) then y # insert_result x ys else x # y # ys)"

definition sort_results :: "comparison list \<Rightarrow> comparison list" where
  "sort_results xs = foldr insert_result xs []"

definition calculateAllModes :: "number \<Rightarrow> comparison list" where
  "calculateAllModes distanceKm =
     (let carEmission = calculateEmission distanceKm ''car'' in
      if is_zero carEmission then []
      else
        sort_results
          (map (\<lambda>m.
                 let emission = calculateEmission distanceKm m;
                     percentageVsCar = fmul (fdiv emission carEmission) (Fin 100)
                 in \<lparr>mode = m, emission = emission,
                     percentageVsCar = fdiv (Math_round (fmul percentageVsCar (Fin 100))) (Fin 100)\<rparr>)
               (Object_keys EMISSION_FACTORS)))"

record savings =
  savedKg :: number
  percentage :: number

definition calculateSavings :: "number \<Rightarrow> number \<Rightarrow> savings" where
  "calculateSavings emission' baselineEmission =
     (if is_zero baselineEmission then \<lparr>savedKg = Fin 0, percentage = Fin 0\<rparr>
      else
        let savedKg = fdiv (Math_round (fmul (fsub baselineEmission emission') (Fin 100))) (Fin 100);
            percentage = fdiv (Math_round (fmul (fdiv savedKg baselineEmission) (Fin 10000))) (Fin 100)
        in \<lparr>savedKg = savedKg, percentage = percentage\<rparr>)"

definition calculateCarbonCredits :: "number \<Rightarrow> number" where
  "calculateCarbonCredits emissionKg =
     (if nlt emissionKg (Fin 0) then Fin 0
      else
        let credits = fdiv emissionKg KG_PER_CREDIT in
        fdiv (Math_round (fmul credits (Fin 10000))) (Fin 10000))"

record price =
  min_price :: number
  max_price :: number
  average :: number

definition estimateCreditPrice :: "number \<Rightarrow> price" where
  "estimateCreditPrice credits =
     (if nlt credits (Fin 0) then \<lparr>min_price = Fin 0, max_price = Fin 0, average = Fin 0\<rparr>
      else
        let minPrice = fdiv (Math_round (fmul (fmul credits PRICE_MIN_BRL) (Fin 100))) (Fin 100);
            maxPrice = fdiv (Math_round (fmul (fmul credits PRICE_MAX_BRL) (Fin 100))) (Fin 100);
            averagePrice = fdiv (Math_round (fmul (fdiv (fadd minPrice maxPrice) (Fin 2)) (Fin 100))) (Fin 100)
        in \<lparr>min_price = minPrice, max_price = maxPrice, average = averagePrice\<rparr>)"

section \<open>Strings\<close>

text \<open>
  A JavaScript string is the sequence of its UTF-16 code units. The model has the code
  units below \<open>U+0100\<close>, one \<open>char\<close> each (\<open>CHR 0xE3\<close> is \<open>U+00E3\<close>, a with
  tilde); every name of the catalog is such a string. \<open>===\<close> on strings is equality of
  the sequences, and the order of \<open>Array.prototype.sort\<close> without a comparator is the
  lexicographic order of the code units, which is \<open>\<le>\<close> on \<open>string\<close> here.

  \<open>trim\<close> removes the white space and the line terminators at both ends: below
  \<open>U+0100\<close> these are TAB, LF, VT, FF, CR, SP and NBSP. \<open>toLowerCase\<close> maps
  \<open>A\<close>-\<open>Z\<close> and \<open>U+00C0\<close>-\<open>U+00DE\<close> (but the multiplication sign
  \<open>U+00D7\<close>) to the code unit 32 above, and nothing else below \<open>U+0100\<close>.
\<close>

definition is_white_space :: "char \<Rightarrow> bool" where
  "is_white_space c \<longleftrightarrow>
     c \<in> {CHR 0x09, CHR 0x0A, CHR 0x0B, CHR 0x0C, CHR 0x0D, CHR 0x20, CHR 0xA0}"

definition trim :: "string \<Rightarrow> string" where
  "trim s = rev (dropWhile is_white_space (rev (dropWhile is_white_space s)))"

definition lower_char :: "char \<Rightarrow> char" where
  "lower_char c =
     (let n = (of_char c :: nat) in
      if (0x41 \<le> n \<and> n \<le> 0x5A) \<or> (0xC0 \<le> n \<and> n \<le> 0xDE \<and> n \<noteq> 0xD7)
      then char_of (n + 0x20) else c)"

definition toLowerCase :: "string \<Rightarrow> string" where
  "toLowerCase s = map lower_char s"

section \<open>RoutesDB\<close>

record route =
  origin :: string
  destination :: string
  distanceKm :: number

definition routes :: "route list" where
  "routes =
     [
      \<lparr>origin = ''S'' @ [CHR 0xE3] @ ''o Paulo, SP'', destination = ''Rio de Janeiro, RJ'',
        distanceKm = Fin 430\<rparr>,
      \<lparr>origin = ''S'' @ [CHR 0xE3] @ ''o Paulo, SP'', destination = ''Bras'' @ [CHR 0xED] @ ''lia, DF'',
        distanceKm = Fin 1015\<rparr>,
      \<lparr>origin = ''Rio de Janeiro, RJ'', destination = ''Bras'' @ [CHR 0xED] @ ''lia, DF'',
        distanceKm = Fin 1148\<rparr>,
      \<lparr>origin = ''S'' @ [CHR 0xE3] @ ''o Paulo, SP'', destination = ''Campinas, SP'',
        distanceKm = Fin 95\<rparr>,
      \<lparr>origin = ''Rio de Janeiro, RJ'', destination = ''Niter'' @ [CHR 0xF3] @ ''i, RJ'',
        distanceKm = Fin 13\<rparr>,
      \<lparr>origin = ''Belo Horizonte, MG'', destination = ''Ouro Preto, MG'',
        distanceKm = Fin 100\<rparr>,
      \<lparr>origin = ''S'' @ [CHR 0xE3] @ ''o Paulo, SP'', destination = ''Belo Horizonte, MG'',
        distanceKm = Fin 586\<rparr>,
      \<lparr>origin = ''Rio de Janeiro, RJ'', destination = ''Belo Horizonte, MG'',
        distanceKm = Fin 716\<rparr>,
      \<lparr>origin = ''S'' @ [CHR 0xE3] @ ''o Paulo, SP'', destination = ''Sorocaba, SP'',
        distanceKm = Fin 108\<rparr>,
      \<lparr>origin = ''S'' @ [CHR 0xE3] @ ''o Paulo, SP'', destination = ''Guarulhos, SP'',
        distanceKm = Fin 28\<rparr>,
      \<lparr>origin = ''Manaus, AM'', destination = ''Rio Branco, AC'',
        distanceKm = Fin 1800\<rparr>,
      \<lparr>origin = ''Bel'' @ [CHR 0xE9] @ ''m, PA'', destination = ''Manaus, AM'',
        distanceKm = Fin 1665\<rparr>,
      \<lparr>origin = ''Bel'' @ [CHR 0xE9] @ ''m, PA'', destination = ''Bras'' @ [CHR 0xED] @ ''lia, DF'',
        distanceKm = Fin 1863\<rparr>,
      \<lparr>origin = ''Manaus, AM'', destination = ''Bras'' @ [CHR 0xED] @ ''lia, DF'',
        distanceKm = Fin 2187\<rparr>,
      \<lparr>origin = ''Salvador, BA'', destination = ''Bras'' @ [CHR 0xED] @ ''lia, DF'',
        distanceKm = Fin 1268\<rparr>,
      \<lparr>origin = ''Recife, PE'', destination = ''Salvador, BA'',
        distanceKm = Fin 766\<rparr>,
      \<lparr>origin = ''Fortaleza, CE'', destination = ''Bras'' @ [CHR 0xED] @ ''lia, DF'',
        distanceKm = Fin 2145\<rparr>,
      \<lparr>origin = ''Natal, RN'', destination = ''Recife, PE'',
        distanceKm = Fin 299\<rparr>,
      \<lparr>origin = ''Macei'' @ [CHR 0xF3] @ '', AL'', destination = ''Recife, PE'',
        distanceKm = Fin 240\<rparr>,
      \<lparr>origin = ''S'' @ [CHR 0xE3] @ ''o Lu'' @ [CHR 0xED] @ ''s, MA'', destination = ''Bras'' @ [CHR 0xED] @ ''lia, DF'',
        distanceKm = Fin 2125\<rparr>,
      \<lparr>origin = ''Teresina, PI'', destination = ''Bras'' @ [CHR 0xED] @ ''lia, DF'',
        distanceKm = Fin 1704\<rparr>,
      \<lparr>origin = ''Curitiba, PR'', destination = ''Bras'' @ [CHR 0xED] @ ''lia, DF'',
        distanceKm = Fin 1110\<rparr>,
      \<lparr>origin = ''Rio de Janeiro, RJ'', destination = ''Curitiba, PR'',
        distanceKm = Fin 920\<rparr>,
      \<lparr>origin = ''S'' @ [CHR 0xE3] @ ''o Paulo, SP'', destination = ''Curitiba, PR'',
        distanceKm = Fin 408\<rparr>,
      \<lparr>origin = ''Porto Alegre, RS'', destination = ''Curitiba, PR'',
        distanceKm = Fin 1090\<rparr>,
      \<lparr>origin = ''Curitiba, PR'', destination = ''Londrina, PR'',
        distanceKm = Fin 380\<rparr>,
      \<lparr>origin = ''Bras'' @ [CHR 0xED] @ ''lia, DF'', destination = ''Porto Alegre, RS'',
        distanceKm = Fin 2020\<rparr>,
      \<lparr>origin = ''Santa Maria, RS'', destination = ''Porto Alegre, RS'',
        distanceKm = Fin 290\<rparr>,
      \<lparr>origin = ''Florian'' @ [CHR 0xF3] @ ''polis, SC'', destination = ''Porto Alegre, RS'',
        distanceKm = Fin 640\<rparr>,
      \<lparr>origin = ''Bras'' @ [CHR 0xED] @ ''lia, DF'', destination = ''Goi'' @ [CHR 0xE2] @ ''nia, GO'',
        distanceKm = Fin 209\<rparr>,
      \<lparr>origin = ''Bras'' @ [CHR 0xED] @ ''lia, DF'', destination = ''Cuiab'' @ [CHR 0xE1] @ '', MT'',
        distanceKm = Fin 925\<rparr>,
      \<lparr>origin = ''Goi'' @ [CHR 0xE2] @ ''nia, GO'', destination = ''S'' @ [CHR 0xE3] @ ''o Paulo, SP'',
        distanceKm = Fin 917\<rparr>,
      \<lparr>origin = ''Campo Grande, MS'', destination = ''Bras'' @ [CHR 0xED] @ ''lia, DF'',
        distanceKm = Fin 1315\<rparr>,
      \<lparr>origin = ''Cuiab'' @ [CHR 0xE1] @ '', MT'', destination = ''Goi'' @ [CHR 0xE2] @ ''nia, GO'',
        distanceKm = Fin 1070\<rparr>,
      \<lparr>origin = ''Santos, SP'', destination = ''S'' @ [CHR 0xE3] @ ''o Paulo, SP'',
        distanceKm = Fin 72\<rparr>,
      \<lparr>origin = ''Jundia'' @ [CHR 0xED] @ '', SP'', destination = ''S'' @ [CHR 0xE3] @ ''o Paulo, SP'',
        distanceKm = Fin 60\<rparr>,
      \<lparr>origin = ''Ribeir'' @ [CHR 0xE3] @ ''o Preto, SP'', destination = ''S'' @ [CHR 0xE3] @ ''o Paulo, SP'',
        distanceKm = Fin 310\<rparr>,
      \<lparr>origin = ''Ara'' @ [CHR 0xE7] @ ''atuba, SP'', destination = ''S'' @ [CHR 0xE3] @ ''o Paulo, SP'',
        distanceKm = Fin 520\<rparr>,
      \<lparr>origin = ''Vit'' @ [CHR 0xF3] @ ''ria, ES'', destination = ''Rio de Janeiro, RJ'',
        distanceKm = Fin 521\<rparr>
     ]"

text \<open>
  \<open>getAllCities\<close>. A \<open>Set\<close> keeps its elements in the order of their first
  insertion; \<open>Set_add\<close> is \<open>citiesSet.add\<close> on the list of the elements. The
  methods read \<open>this.routes\<close>, the first argument here.
\<close>

definition Set_add :: "'a \<Rightarrow> 'a list \<Rightarrow> 'a list" where
  "Set_add x xs = (if x \<in> set xs then xs else xs @ [x])"

definition getAllCities :: "route list \<Rightarrow> string list" where
  "getAllCities this_routes =
     (let citiesSet =
            foldl (\<lambda>citiesSet route. Set_add (destination route) (Set_add (origin route) citiesSet))
              [] this_routes
      in sort citiesSet)"

text \<open>\<open>findDistance\<close>; \<open>None\<close> is \<open>null\<close>.\<close>

definition findDistance :: "route list \<Rightarrow> string \<Rightarrow> string \<Rightarrow> number option" where
  "findDistance this_routes origin' destination' =
     (let normalizedOrigin = toLowerCase (trim origin');
          normalizedDestination = toLowerCase (trim destination')
      in
        case find (\<lambda>route. toLowerCase (origin route) = normalizedOrigin
                          \<and> toLowerCase (destination route) = normalizedDestination)
               this_routes of
          Some routeForward \<Rightarrow> Some (distanceKm routeForward)
        | None \<Rightarrow>
            (case find (\<lambda>route. toLowerCase (origin route) = normalizedDestination
                               \<and> toLowerCase (destination route) = normalizedOrigin)
                    this_routes of
               Some routeReverse \<Rightarrow> Some (distanceKm routeReverse)
             | None \<Rightarrow> None))"

text \<open>
  A route matches the pair \<open>(a, b)\<close> when its names equal the normalised \<open>a\<close> and
  \<open>b\<close>, case ignored.
\<close>

definition matches :: "route \<Rightarrow> string \<Rightarrow> string \<Rightarrow> bool" where
  "matches r a b \<longleftrightarrow>
     toLowerCase (origin r) = toLowerCase (trim a)
     \<and> toLowerCase (destination r) = toLowerCase (trim b)"

text \<open>
  The names of a route as \<open>findDistance\<close> compares them: lowercased, in the order
  origin, destination.
\<close>

definition route_key :: "route \<Rightarrow> string \<times> string" where
  "route_key r = (toLowerCase (origin r), toLowerCase (destination r))"

section \<open>Rounding, as the specification words it\<close>

text \<open>
  The specification's \<open>round2 x\<close> is \<open>round(x * 100) / 100\<close>, with \<open>round\<close> the nearest
  integer and a tie going away from zero. \<open>round_half_away\<close> is that \<open>round\<close> on the
  numbers of the program, and \<open>round2_spec\<close> and \<open>round4_spec\<close> follow the specification's
  words with the program's multiplication and division. \<open>Math_round2\<close> is the expression
  the source writes, \<open>Math.round(x * 100) / 100\<close>. \<open>round2\<close> is the same on exact rationals,
  where no operation rounds.
\<close>

definition round2 :: "rat \<Rightarrow> rat" where
  "round2 x = of_int \<lfloor>x * 100 + 1 / 2\<rfloor> / 100"

definition round_away :: "rat \<Rightarrow> int" where
  "round_away x = (if 0 \<le> x then \<lfloor>x + 1 / 2\<rfloor> else - \<lfloor>- x + 1 / 2\<rfloor>)"

fun round_half_away :: "number \<Rightarrow> number" where
  "round_half_away (Fin q) =
     (let n = round_away q in if n = 0 \<and> q < 0 then NegZero else Fin (of_int n))"
| "round_half_away x = x"

definition round2_spec :: "number \<Rightarrow> number" where
  "round2_spec x = fdiv (round_half_away (fmul x (Fin 100))) (Fin 100)"


definition Math_round2 :: "number \<Rightarrow> number" where
  "Math_round2 x = fdiv (Math_round (fmul x (Fin 100))) (Fin 100)"

text \<open>The order of the result: ascending by \<open>emission\<close>.\<close>

abbreviation by_emission :: "comparison \<Rightarrow> comparison \<Rightarrow> bool" where
  "by_emission a b \<equiv> nle (emission a) (emission b)"

section \<open>Ranges of numbers\<close>

text \<open>
  \<open>nonneg\<close>: a finite number with no sign bit, or \<open>+Infinity\<close>. \<open>on_grid\<close>: a multiple of
  the least positive binary64 value, as every finite binary64 value is. \<open>sortable\<close>: the
  numbers on which the comparator of the sort is consistent. \<open>at_least c\<close>, \<open>at_most c\<close>
  and \<open>upto c\<close>: from \<open>c\<close> up to \<open>+Infinity\<close>, from \<open>-Infinity\<close> up to \<open>c\<close>, and from
  \<open>+0\<close> up to \<open>c\<close>.
\<close>

fun nonneg :: "number \<Rightarrow> bool" where
  "nonneg (Fin q) = (0 \<le> q)"
| "nonneg PosInf = True"
| "nonneg _ = False"

definition on_grid :: "rat \<Rightarrow> bool" where
  "on_grid r \<longleftrightarrow> of_int \<lfloor>r / pow2 (- 1074)\<rfloor> = r / pow2 (- 1074)"

fun sortable :: "number \<Rightarrow> bool" where
  "sortable (Fin q) = (0 \<le> q \<and> on_grid q)"
| "sortable PosInf = True"
| "sortable _ = False"

fun at_least :: "rat \<Rightarrow> number \<Rightarrow> bool" where
  "at_least c (Fin q) = (c \<le> q)"
| "at_least c PosInf = True"
| "at_least c _ = False"

fun at_most :: "rat \<Rightarrow> number \<Rightarrow> bool" where
  "at_most c (Fin q) = (q \<le> c)"
| "at_most c NegInf = True"
| "at_most c _ = False"

fun upto :: "rat \<Rightarrow> number \<Rightarrow> bool" where
  "upto c (Fin q) = (0 \<le> q \<and> q \<le> c)"
| "upto c _ = False"

section \<open>Powers of two\<close>

lemma pow2_powi: "pow2 e = 2 powi e"
  by (simp add: pow2_def power_int_def field_simps)

lemma pow2_pos [simp]: "0 < pow2 e"
  by (simp add: pow2_def)

lemma pow2_add: "pow2 (a + b) = pow2 a * pow2 b"
  by (simp add: pow2_powi power_int_add)

lemma pow2_diff: "pow2 (a - b) = pow2 a / pow2 b"
  by (simp add: pow2_powi power_int_diff)

lemma pow2_mono: "a \<le> b \<Longrightarrow> pow2 a \<le> pow2 b"
  by (simp add: pow2_powi power_int_increasing)

lemma pow2_strict_mono: "a < b \<Longrightarrow> pow2 a < pow2 b"
  by (simp add: pow2_powi power_int_strict_increasing)

lemma pow2_nat: "0 \<le> e \<Longrightarrow> pow2 e = of_int (2 ^ nat e)"
  by (simp add: pow2_def)

lemma overflow_threshold_pow2: "overflow_threshold = pow2 1024"
  by (simp add: overflow_threshold_def pow2_def)

section \<open>The binary exponent\<close>

lemma exponent_bounds:
  assumes "q \<noteq> 0"
  shows "pow2 (exponent q) \<le> \<bar>q\<bar>" and "\<bar>q\<bar> < pow2 (exponent q + 1)"
proof -
  obtain a b where ab: "quotient_of \<bar>q\<bar> = (a, b)" by (cases "quotient_of \<bar>q\<bar>")
  then have b: "0 < b" and q: "\<bar>q\<bar> = of_int a / of_int b"
    by (auto simp: quotient_of_denom_pos quotient_of_div)
  have "0 < \<bar>q\<bar>" using assms by simp
  then have a: "0 < a" using b q by (simp add: zero_less_divide_iff)
  define la lb where "la = bitlen a" and "lb = bitlen b"
  have la: "1 \<le> la" "(2::int) ^ nat (la - 1) \<le> a" "a < 2 ^ nat la"
    using bitlen_bounds [OF a] a by (auto simp: la_def bitlen_alt_def)
  have lb: "1 \<le> lb" "(2::int) ^ nat (lb - 1) \<le> b" "b < 2 ^ nat lb"
    using bitlen_bounds [OF b] b by (auto simp: lb_def bitlen_alt_def)
  have nat_bound: "pow2 l \<le> of_int m" if "0 \<le> l" and "(2::int) ^ nat l \<le> m" for l m
  proof -
    have "pow2 l = of_int (2 ^ nat l)" using that(1) by (rule pow2_nat)
    also have "\<dots> \<le> of_int m" using that(2) by (simp only: of_int_le_iff)
    finally show ?thesis .
  qed
  have nat_bound': "of_int m < pow2 l" if "0 \<le> l" and "m < (2::int) ^ nat l" for l m
  proof -
    have "(of_int m :: rat) < of_int (2 ^ nat l)" using that(2) by (simp only: of_int_less_iff)
    also have "\<dots> = pow2 l" using that(1) by (rule pow2_nat [symmetric])
    finally show ?thesis .
  qed
  have ra: "pow2 (la - 1) \<le> of_int a" "of_int a < pow2 la"
    using la by (auto intro: nat_bound nat_bound')
  have rb: "pow2 (lb - 1) \<le> of_int b" "of_int b < pow2 lb"
    using lb by (auto intro: nat_bound nat_bound')
  have bpos: "(0::rat) < of_int b" using b by simp
  have upper: "\<bar>q\<bar> < pow2 (la - lb + 1)"
  proof -
    have "of_int a < pow2 (la - lb + 1) * pow2 (lb - 1)"
      using ra(2) by (simp flip: pow2_add)
    also have "\<dots> \<le> pow2 (la - lb + 1) * of_int b"
      using rb(1) by (simp add: mult_left_mono less_imp_le)
    finally show ?thesis using bpos by (simp add: q pos_divide_less_eq)
  qed
  have lower: "pow2 (la - lb - 1) < \<bar>q\<bar>"
  proof -
    have "pow2 (la - lb - 1) * of_int b < pow2 (la - lb - 1) * pow2 lb"
      using rb(2) by (simp add: mult_strict_left_mono)
    also have "\<dots> = pow2 (la - 1)" by (simp flip: pow2_add)
    also have "\<dots> \<le> of_int a" by (rule ra(1))
    finally show ?thesis using bpos by (simp add: q pos_less_divide_eq)
  qed
  have e: "exponent q = (if pow2 (la - lb) \<le> \<bar>q\<bar> then la - lb else la - lb - 1)"
    by (simp add: exponent_def ab la_def lb_def Let_def)
  show "pow2 (exponent q) \<le> \<bar>q\<bar>"
    using lower by (simp add: e less_imp_le)
  show "\<bar>q\<bar> < pow2 (exponent q + 1)"
    using upper by (auto simp: e not_le)
qed

lemma exponent_unique:
  assumes "pow2 e \<le> \<bar>q\<bar>" and "\<bar>q\<bar> < pow2 (e + 1)"
  shows "exponent q = e"
proof -
  have "0 < \<bar>q\<bar>" using assms(1) pow2_pos [of e] by linarith
  then have q: "q \<noteq> 0" by simp
  note b = exponent_bounds [OF q]
  have "\<not> exponent q < e"
  proof
    assume "exponent q < e"
    then have "pow2 (exponent q + 1) \<le> pow2 e" by (intro pow2_mono) simp
    with b(2) assms(1) show False by simp
  qed
  moreover have "\<not> e < exponent q"
  proof
    assume "e < exponent q"
    then have "pow2 (e + 1) \<le> pow2 (exponent q)" by (intro pow2_mono) simp
    with b(1) assms(2) show False by simp
  qed
  ultimately show ?thesis by simp
qed

lemma exponent_mono:
  assumes "0 < q" and "q \<le> q'"
  shows "exponent q \<le> exponent q'"
proof (rule ccontr)
  assume "\<not> exponent q \<le> exponent q'"
  then have "pow2 (exponent q' + 1) \<le> pow2 (exponent q)" by (intro pow2_mono) simp
  moreover have "pow2 (exponent q) \<le> q" using exponent_bounds(1) [of q] assms(1) by simp
  moreover have "q' < pow2 (exponent q' + 1)" using exponent_bounds(2) [of q'] assms by simp
  ultimately show False using assms(2) by simp
qed

lemma exponent_minus [simp]: "exponent (- q) = exponent q"
  by (simp add: exponent_def)

lemma quantum_minus [simp]: "quantum (- q) = quantum q"
  by (simp add: quantum_def)

lemma quantum_mono: "0 < q \<Longrightarrow> q \<le> q' \<Longrightarrow> quantum q \<le> quantum q'"
  using exponent_mono [of q q'] by (simp add: quantum_def)

lemma quantum_ge: "- 1074 \<le> quantum q"
  by (simp add: quantum_def)

section \<open>Rounding to the nearest even integer\<close>

lemma round_even_of_int [simp]: "round_even (of_int n) = n"
  by (simp add: round_even_def)

lemma round_even_mono:
  assumes "x \<le> y"
  shows "round_even x \<le> round_even y"
proof -
  have fl: "\<lfloor>x\<rfloor> \<le> \<lfloor>y\<rfloor>" using assms by (rule floor_mono)
  show ?thesis
  proof (cases "\<lfloor>x\<rfloor> = \<lfloor>y\<rfloor>")
    case True
    then have "x - of_int \<lfloor>x\<rfloor> \<le> y - of_int \<lfloor>y\<rfloor>" using assms by simp
    then show ?thesis using True by (auto simp: round_even_def Let_def)
  next
    case False
    with fl have lt: "\<lfloor>x\<rfloor> + 1 \<le> \<lfloor>y\<rfloor>" by simp
    have "round_even x \<le> \<lfloor>x\<rfloor> + 1" by (simp add: round_even_def Let_def)
    moreover have "\<lfloor>y\<rfloor> \<le> round_even y" by (simp add: round_even_def Let_def)
    ultimately show ?thesis using lt by linarith
  qed
qed

lemma round_even_minus: "round_even (- x) = - round_even x"
proof (cases "x = of_int \<lfloor>x\<rfloor>")
  case True
  then obtain n where "x = of_int n" ..
  then show ?thesis by (simp flip: of_int_minus)
next
  case False
  then have f: "\<lfloor>- x\<rfloor> = - \<lfloor>x\<rfloor> - 1"
    by (simp add: floor_minus ceiling_altdef)
  define n where "n = \<lfloor>x\<rfloor>"
  define r where "r = x - of_int n"
  have r: "0 < r" "r < 1" using False by (auto simp: r_def n_def less_le) linarith+
  have a: "round_even x = (if r < 1 / 2 then n else if 1 / 2 < r then n + 1 else if even n then n else n + 1)"
    by (simp add: round_even_def n_def r_def Let_def)
  have "- x - of_int (- n - 1) = 1 - r" by (simp add: r_def)
  then have b: "round_even (- x) = (if 1 - r < 1 / 2 then - n - 1 else if 1 / 2 < 1 - r then - n else if even (- n - 1) then - n - 1 else - n)"
    by (simp add: round_even_def f n_def [symmetric] Let_def)
  show ?thesis unfolding a b using r by auto
qed

lemma round_even_nonneg: "0 \<le> x \<Longrightarrow> 0 \<le> round_even x"
  using round_even_mono [of 0 x] round_even_of_int [of 0] by simp

section \<open>Rounding to binary64\<close>

lemma rnd_0 [simp]: "rnd 0 = 0"
  by (simp add: rnd_def)

lemma rnd_minus: "rnd (- q) = - rnd q"
  by (simp add: rnd_def round_even_minus)

lemma rnd_nonneg: "0 \<le> q \<Longrightarrow> 0 \<le> rnd q"
  by (simp add: rnd_def round_even_nonneg less_imp_le)

lemma rnd_nonpos: "q \<le> 0 \<Longrightarrow> rnd q \<le> 0"
  using rnd_nonneg [of "- q"] by (simp add: rnd_minus)

text \<open>A multiple of the quantum of \<open>q\<close> on one side of \<open>q\<close> stays on that side.\<close>

lemma rnd_le_grid:
  assumes "q \<le> of_int k * pow2 (quantum q)"
  shows "rnd q \<le> of_int k * pow2 (quantum q)"
proof (cases "q = 0")
  case True
  then show ?thesis using assms by simp
next
  case False
  have "q / pow2 (quantum q) \<le> of_int k"
    using assms by (simp add: pos_divide_le_eq)
  then have "round_even (q / pow2 (quantum q)) \<le> k"
    using round_even_mono [of "q / pow2 (quantum q)" "of_int k"] by simp
  then have "(of_int (round_even (q / pow2 (quantum q))) :: rat) \<le> of_int k"
    by (simp only: of_int_le_iff)
  then show ?thesis using False by (simp add: rnd_def mult_right_mono less_imp_le)
qed

lemma rnd_ge_grid:
  assumes "of_int k * pow2 (quantum q) \<le> q"
  shows "of_int k * pow2 (quantum q) \<le> rnd q"
proof (cases "q = 0")
  case True
  then show ?thesis using assms by simp
next
  case False
  have "of_int k \<le> q / pow2 (quantum q)"
    using assms by (simp add: pos_le_divide_eq)
  then have "k \<le> round_even (q / pow2 (quantum q))"
    using round_even_mono [of "of_int k" "q / pow2 (quantum q)"] by simp
  then have "(of_int k :: rat) \<le> of_int (round_even (q / pow2 (quantum q)))"
    by (simp only: of_int_le_iff)
  then show ?thesis using False by (simp add: rnd_def mult_right_mono less_imp_le)
qed

lemma pow2_grid:
  assumes "e \<le> b"
  shows "pow2 b = of_int (2 ^ nat (b - e)) * pow2 e"
proof -
  have "pow2 b = pow2 (b - e) * pow2 e" by (simp flip: pow2_add)
  also have "pow2 (b - e) = of_int (2 ^ nat (b - e))" using assms by (intro pow2_nat) simp
  finally show ?thesis .
qed

lemma rnd_mono_pos:
  assumes "0 < q" and "q \<le> q'"
  shows "rnd q \<le> rnd q'"
proof (cases "quantum q = quantum q'")
  case True
  have "q / pow2 (quantum q') \<le> q' / pow2 (quantum q')"
    using assms(2) by (simp add: divide_right_mono less_imp_le)
  then have "round_even (q / pow2 (quantum q')) \<le> round_even (q' / pow2 (quantum q'))"
    by (rule round_even_mono)
  then have "(of_int (round_even (q / pow2 (quantum q'))) :: rat)
      \<le> of_int (round_even (q' / pow2 (quantum q')))"
    by (simp only: of_int_le_iff)
  then show ?thesis using assms True by (simp add: rnd_def mult_right_mono less_imp_le)
next
  case False
  with quantum_mono [OF assms] have lt: "quantum q < quantum q'" by simp
  define b where "b = exponent q'"
  have q': "quantum q' = b - 52"
    using lt quantum_ge [of q] by (auto simp: quantum_def b_def max_def split: if_splits)
  have g': "pow2 b = of_int (2 ^ nat (b - quantum q')) * pow2 (quantum q')"
    by (rule pow2_grid) (simp add: q')
  have "pow2 b \<le> q'" using exponent_bounds(1) [of q'] assms by (simp add: b_def)
  then have "of_int (2 ^ nat (b - quantum q')) * pow2 (quantum q') \<le> q'"
    by (simp only: g' [symmetric])
  then have "of_int (2 ^ nat (b - quantum q')) * pow2 (quantum q') \<le> rnd q'"
    by (rule rnd_ge_grid)
  then have up: "pow2 b \<le> rnd q'" by (simp only: g' [symmetric])
  have "exponent q - 52 \<le> quantum q" by (simp add: quantum_def)
  with lt q' have "exponent q + 1 \<le> b" by simp
  then have "pow2 (exponent q + 1) \<le> pow2 b" by (rule pow2_mono)
  moreover have "q < pow2 (exponent q + 1)" using exponent_bounds(2) [of q] assms(1) by simp
  ultimately have "q \<le> pow2 b" by simp
  moreover have g: "pow2 b = of_int (2 ^ nat (b - quantum q)) * pow2 (quantum q)"
    by (rule pow2_grid) (use lt q' in simp)
  ultimately have "q \<le> of_int (2 ^ nat (b - quantum q)) * pow2 (quantum q)"
    by (simp only:)
  then have "rnd q \<le> of_int (2 ^ nat (b - quantum q)) * pow2 (quantum q)"
    by (rule rnd_le_grid)
  then have "rnd q \<le> pow2 b" by (simp only: g [symmetric])
  with up show ?thesis by simp
qed

lemma rnd_mono:
  assumes "q \<le> q'"
  shows "rnd q \<le> rnd q'"
proof -
  consider "0 < q" | "q \<le> 0" "0 \<le> q'" | "q' < 0" by linarith
  then show ?thesis
  proof cases
    case 1
    then show ?thesis using assms by (rule rnd_mono_pos)
  next
    case 2
    then show ?thesis using rnd_nonpos [of q] rnd_nonneg [of q'] by simp
  next
    case 3
    then have "rnd (- q') \<le> rnd (- q)" using assms by (intro rnd_mono_pos) simp_all
    then show ?thesis by (simp add: rnd_minus)
  qed
qed

text \<open>Every rounded value is a multiple of the least positive binary64 value.\<close>

lemma rnd_on_grid: "\<exists>k. rnd q = of_int k * pow2 (- 1074)"
proof (cases "q = 0")
  case True
  then have "rnd q = of_int 0 * pow2 (- 1074)" by simp
  then show ?thesis ..
next
  case False
  have "pow2 (quantum q) = of_int (2 ^ nat (quantum q + 1074)) * pow2 (- 1074)"
    using pow2_grid [of "- 1074" "quantum q"] quantum_ge [of q] by simp
  then have "rnd q = of_int (round_even (q / pow2 (quantum q)) * 2 ^ nat (quantum q + 1074)) * pow2 (- 1074)"
    using False by (simp add: rnd_def)
  then show ?thesis ..
qed

lemma rnd_least: "rnd (pow2 (- 1074)) = pow2 (- 1074)"
proof -
  have "exponent (pow2 (- 1074)) = - 1074"
    by (rule exponent_unique) (simp_all add: abs_of_pos pow2_strict_mono)
  then have "quantum (pow2 (- 1074)) = - 1074" by (simp add: quantum_def)
  then show ?thesis
    using pow2_pos [of "- 1074"] round_even_of_int [of 1] by (simp add: rnd_def)
qed

lemma rnd_pos_diff:
  assumes "a = of_int k * pow2 (- 1074)" and "b = of_int l * pow2 (- 1074)" and "b < a"
  shows "0 < rnd (a - b)"
proof -
  have "of_int l * pow2 (- 1074) < of_int k * pow2 (- 1074)" using assms by simp
  moreover have "0 \<le> pow2 (- 1074)" by (simp add: less_imp_le)
  ultimately have "l < k" by (auto simp: mult_less_cancel_right)
  then have "1 \<le> k - l" by simp
  then have "(of_int 1 :: rat) \<le> of_int (k - l)" by (simp only: of_int_le_iff)
  then have "(1::rat) \<le> of_int (k - l)" by simp
  then have "1 * pow2 (- 1074) \<le> of_int (k - l) * pow2 (- 1074)"
    by (intro mult_right_mono) (simp_all add: less_imp_le)
  then have "pow2 (- 1074) \<le> a - b" by (simp add: assms(1,2) algebra_simps)
  then have "rnd (pow2 (- 1074)) \<le> rnd (a - b)" by (rule rnd_mono)
  then have "pow2 (- 1074) \<le> rnd (a - b)" by (simp only: rnd_least)
  then show ?thesis by (rule less_le_trans [OF pow2_pos])
qed

section \<open>Signs and bounds of the operations\<close>

lemma overflow_threshold_pos: "0 < overflow_threshold"
  by (simp add: overflow_threshold_def)

lemma fl_0 [simp]: "fl 0 = Fin 0"
  using overflow_threshold_pos by (simp add: fl_def)

lemma lit_0 [simp]: "lit 0 = Fin 0"
  by (simp add: lit_def)


lemma is_neg_fl: "q < 0 \<Longrightarrow> is_neg (fl q)"
  using rnd_nonpos [of q] overflow_threshold_pos by (auto simp: fl_def Let_def)

lemma nonneg_cases:
  assumes "nonneg x"
  obtains q where "x = Fin q" and "0 \<le> q" | "x = PosInf"
  using assms by (cases x) simp_all









text \<open>The sign bit survives a multiplication or a division by a positive number, and \<open>Math.round\<close>.\<close>

lemma is_neg_fmul_pos:
  assumes "is_neg x" and "0 < k"
  shows "is_neg (fmul x (Fin k))"
  using assms
  by (cases x)
    (simp_all add: fmul_def signed_zero_def signed_inf_def is_neg_fl mult_neg_pos)

lemma is_neg_fdiv_pos:
  assumes "is_neg x" and "0 < k"
  shows "is_neg (fdiv x (Fin k))"
  using assms
  by (cases x)
    (simp_all add: fdiv_def signed_zero_def signed_inf_def is_neg_fl divide_neg_pos)

lemma is_neg_Math_round:
  assumes "is_neg x"
  shows "is_neg (Math_round x)"
proof (cases x)
  case (Fin q)
  define n where "n = \<lfloor>q + 1 / 2\<rfloor>"
  from Fin assms have "q < 0" by simp
  then have "q + 1 / 2 < 1" by simp
  then have "n \<le> 0" by (simp add: n_def floor_less_iff flip: zle_add1_eq_le)
  moreover have "Math_round (Fin q) = (if n = 0 then NegZero else Fin (of_int n))"
    using \<open>q < 0\<close> by (simp add: n_def Let_def)
  ultimately show ?thesis using Fin by auto
qed (use assms in simp_all)

lemma is_neg_nle: "is_neg x \<Longrightarrow> nle x (Fin 0)"
  by (cases x) simp_all

lemma is_neg_fsub:
  assumes "b < e"
  shows "is_neg (fsub (Fin b) (Fin e))"
  using assms by (simp add: fsub_def fadd_def is_neg_fl)

section \<open>Bounds through the operations\<close>

lemma fl_at_least:
  assumes "c \<le> q" and "rnd c = c'" and "0 < c'"
  shows "at_least c' (fl q)"
proof -
  have "c' \<le> rnd q" using rnd_mono [OF assms(1)] assms(2) by simp
  then show ?thesis using assms(3) overflow_threshold_pos by (auto simp: fl_def Let_def)
qed

lemma fl_at_most:
  assumes "q \<le> c" and "rnd c = c'" and "c' < 0"
  shows "at_most c' (fl q)"
proof -
  have "rnd q \<le> c'" using rnd_mono [OF assms(1)] assms(2) by simp
  then show ?thesis using assms(3) overflow_threshold_pos by (auto simp: fl_def Let_def)
qed

lemma fl_upto:
  assumes "0 \<le> q" and "q \<le> c" and "rnd c = c'" and "c' < overflow_threshold"
  shows "upto c' (fl q)"
proof -
  have "rnd q \<le> c'" using rnd_mono [OF assms(2)] assms(3) by simp
  moreover have "0 \<le> rnd q" using assms(1) by (rule rnd_nonneg)
  ultimately show ?thesis
    using assms(1,4) overflow_threshold_pos by (auto simp: fl_def Let_def)
qed

lemma fmul_at_least:
  assumes "at_least c x" and "0 < c" and "0 < k" and "rnd (c * k) = c'" and "0 < c'"
  shows "at_least c' (fmul x (Fin k))"
proof (cases x)
  case (Fin q)
  with assms(1) have "c \<le> q" by simp
  then have "c * k \<le> q * k" using assms(3) by (simp add: mult_right_mono)
  then have "at_least c' (fl (q * k))" using assms(4,5) by (rule fl_at_least)
  moreover have "q * k \<noteq> 0" using \<open>c \<le> q\<close> assms(2,3) by auto
  ultimately show ?thesis using Fin by (simp add: fmul_def)
next
  case PosInf
  then show ?thesis using assms(3) by (simp add: fmul_def signed_inf_def)
qed (use assms(1) in simp_all)

lemma fdiv_at_least:
  assumes "at_least c x" and "0 < c" and "0 < k" and "rnd (c / k) = c'" and "0 < c'"
  shows "at_least c' (fdiv x (Fin k))"
proof (cases x)
  case (Fin q)
  with assms(1) have "c \<le> q" by simp
  then have "c / k \<le> q / k" using assms(3) by (simp add: divide_right_mono)
  then have "at_least c' (fl (q / k))" using assms(4,5) by (rule fl_at_least)
  moreover have "q \<noteq> 0" using \<open>c \<le> q\<close> assms(2) by auto
  ultimately show ?thesis using Fin assms(3) by (simp add: fdiv_def)
next
  case PosInf
  then show ?thesis using assms(3) by (simp add: fdiv_def signed_inf_def)
qed (use assms(1) in simp_all)

lemma Math_round_at_least:
  assumes "at_least c x" and "\<lfloor>c + 1 / 2\<rfloor> = n" and "0 < n"
  shows "at_least (of_int n) (Math_round x)"
proof (cases x)
  case (Fin q)
  define k where "k = \<lfloor>q + 1 / 2\<rfloor>"
  from Fin assms(1) have "c \<le> q" by simp
  then have "\<lfloor>c + 1 / 2\<rfloor> \<le> \<lfloor>q + 1 / 2\<rfloor>" by (intro floor_mono) simp
  then have "n \<le> k" using assms(2) by (simp add: k_def)
  moreover have "Math_round (Fin q) = (if k = 0 \<and> q < 0 then NegZero else Fin (of_int k))"
    by (simp add: k_def Let_def)
  ultimately show ?thesis using Fin assms(3) by auto
qed (use assms(1) in simp_all)

lemma at_least_not_zero: "at_least c x \<Longrightarrow> 0 < c \<Longrightarrow> \<not> is_zero x"
  by (cases x) auto

lemma fmul_at_most:
  assumes "at_most c x" and "c < 0" and "0 < k" and "rnd (c * k) = c'" and "c' < 0"
  shows "at_most c' (fmul x (Fin k))"
proof (cases x)
  case (Fin q)
  with assms(1) have "q \<le> c" by simp
  then have "q * k \<le> c * k" using assms(3) by (simp add: mult_right_mono)
  then have "at_most c' (fl (q * k))" using assms(4,5) by (rule fl_at_most)
  moreover have "q * k \<noteq> 0" using \<open>q \<le> c\<close> assms(2,3) by auto
  ultimately show ?thesis using Fin by (simp add: fmul_def)
next
  case NegInf
  then show ?thesis using assms(3) by (simp add: fmul_def signed_inf_def)
qed (use assms(1) in simp_all)

lemma fdiv_at_most:
  assumes "at_most c x" and "c < 0" and "0 < k" and "rnd (c / k) = c'" and "c' < 0"
  shows "at_most c' (fdiv x (Fin k))"
proof (cases x)
  case (Fin q)
  with assms(1) have "q \<le> c" by simp
  then have "q / k \<le> c / k" using assms(3) by (simp add: divide_right_mono)
  then have "at_most c' (fl (q / k))" using assms(4,5) by (rule fl_at_most)
  moreover have "q \<noteq> 0" using \<open>q \<le> c\<close> assms(2) by auto
  ultimately show ?thesis using Fin assms(3) by (simp add: fdiv_def)
next
  case NegInf
  then show ?thesis using assms(3) by (simp add: fdiv_def signed_inf_def)
qed (use assms(1) in simp_all)

lemma Math_round_at_most:
  assumes "at_most c x" and "\<lfloor>c + 1 / 2\<rfloor> = n" and "n < 0"
  shows "at_most (of_int n) (Math_round x)"
proof (cases x)
  case (Fin q)
  define k where "k = \<lfloor>q + 1 / 2\<rfloor>"
  from Fin assms(1) have "q \<le> c" by simp
  then have "\<lfloor>q + 1 / 2\<rfloor> \<le> \<lfloor>c + 1 / 2\<rfloor>" by (intro floor_mono) simp
  then have "k \<le> n" using assms(2) by (simp add: k_def)
  moreover have "Math_round (Fin q) = (if k = 0 \<and> q < 0 then NegZero else Fin (of_int k))"
    by (simp add: k_def Let_def)
  ultimately show ?thesis using Fin assms(3) by auto
qed (use assms(1) in simp_all)

lemma at_most_nlt: "at_most c x \<Longrightarrow> c < 0 \<Longrightarrow> nlt x (Fin 0)"
  by (cases x) auto

lemma fmul_upto:
  assumes "upto c x" and "0 \<le> k" and "rnd (c * k) = c'" and "c' < overflow_threshold"
  shows "upto c' (fmul x (Fin k))"
proof (cases x)
  case (Fin q)
  with assms(1) have q: "0 \<le> q" "q \<le> c" by simp_all
  then have "q * k \<le> c * k" using assms(2) by (simp add: mult_right_mono)
  moreover have "0 \<le> q * k" using q assms(2) by simp
  ultimately have "upto c' (fl (q * k))" using assms(3,4) by (intro fl_upto)
  moreover have "0 \<le> c'" using rnd_nonneg [of "c * k"] q assms(2,3) by simp
  ultimately show ?thesis using Fin q assms(2) by (simp add: fmul_def signed_zero_def)
qed (use assms(1) in simp_all)

lemma Math_round_upto:
  assumes "upto c x" and "c < 1 / 2"
  shows "Math_round x = Fin 0"
proof (cases x)
  case (Fin q)
  with assms have "0 \<le> q" "q < 1 / 2" by simp_all
  then have "\<lfloor>q + 1 / 2\<rfloor> = 0" by (simp add: floor_eq_iff)
  then show ?thesis using Fin \<open>0 \<le> q\<close> by (simp add: Let_def)
qed (use assms(1) in simp_all)

lemma fsub_Fin: "fsub (Fin y) (Fin x) = (if y = x then Fin 0 else fl (y - x))"
  by (simp add: fsub_def fadd_def)

section \<open>calculateEmission\<close>


lemma one_less_overflow_threshold: "1 < overflow_threshold"
  by (simp add: overflow_threshold_def)



lemma calculateEmission_known:
  assumes "map_of EMISSION_FACTORS m = Some f"
  shows "calculateEmission x m =
    (if nlt x (Fin 0) then Fin 0 else Math_round2 (fmul x (lit f)))"
proof -
  have "m \<noteq> []" using assms by (auto simp: EMISSION_FACTORS_def)
  then show ?thesis using assms
    by (simp add: calculateEmission_def get_property_def Math_round2_def)
qed





section \<open>calculateSavings\<close>

lemma savedKg_sign:
  assumes "y < x"
  shows "is_neg (Math_round2 (fsub (Fin y) (Fin x)))"
  using assms
  by (simp add: Math_round2_def is_neg_fdiv_pos is_neg_Math_round is_neg_fmul_pos is_neg_fsub)

lemma rnd_hundredth: "rnd (- (1 / 100)) = - (5764607523034235 / 576460752303423488)"
  by code_simp

lemma rnd_hundredth_100: "rnd (- (5764607523034235 / 576460752303423488) * 100) = - 1"
  by code_simp

lemma savedKg_negative:
  assumes "y + 1 / 100 \<le> x"
  shows "nlt (Math_round2 (fsub (Fin y) (Fin x))) (Fin 0)"
proof -
  define D :: rat where "D = - (5764607523034235 / 576460752303423488)"
  have D: "D < 0" by (simp add: D_def)
  have "y - x \<le> - (1 / 100)" using assms by simp
  then have "at_most D (fl (y - x))"
    using D by (intro fl_at_most [where c = "- (1 / 100)"]) (simp_all add: rnd_hundredth D_def)
  moreover have "y \<noteq> x" using assms by auto
  ultimately have m0: "at_most D (fsub (Fin y) (Fin x))" by (simp add: fsub_Fin)
  have r100: "rnd (D * 100) = - 1" unfolding D_def by (rule rnd_hundredth_100)
  have "at_most (- 1) (fmul (fsub (Fin y) (Fin x)) (Fin 100))"
    by (rule fmul_at_most [OF m0 D _ r100]) simp_all
  then have "at_most (of_int (- 1)) (Math_round (fmul (fsub (Fin y) (Fin x)) (Fin 100)))"
    by (rule Math_round_at_most) (simp_all add: floor_eq_iff)
  then have m2: "at_most (- 1) (Math_round (fmul (fsub (Fin y) (Fin x)) (Fin 100)))" by simp
  have r: "rnd (- 1 / 100) = D" using rnd_hundredth by (simp add: D_def)
  have "at_most D (fdiv (Math_round (fmul (fsub (Fin y) (Fin x)) (Fin 100))) (Fin 100))"
    by (rule fdiv_at_most [OF m2 _ _ r D]) simp_all
  then show ?thesis using D unfolding Math_round2_def by (rule at_most_nlt)
qed

text \<open>
  C3, as amended. For a baseline \<open>b\<close> that is not zero, \<open>calculateSavings\<close> returns
  \<open>savedKg = Math.round((b - e) * 100) / 100\<close> and the percentage
  \<open>Math.round(savedKg / b * 10000) / 100\<close>, computed from the rounded \<open>savedKg\<close>
  (\<open>Math.round\<close>: a tie goes to the larger integer); for 8.9 against 12 they are 3.1 and
  25.83. Nothing is clamped: when a finite emission exceeds a finite baseline \<open>savedKg\<close>
  has its sign bit set, so it is negative or \<open>-0\<close> and never positive; it is negative as
  soon as the excess is 0.01 or more; and with a positive baseline the percentage has its
  sign bit set too.
\<close>

theorem calculateSavings_two_step:
  "(\<not> is_zero b \<longrightarrow>
      calculateSavings e b =
        \<lparr>savedKg = Math_round2 (fsub b e),
         percentage =
           fdiv (Math_round (fmul (fdiv (Math_round2 (fsub b e)) b) (Fin 10000))) (Fin 100)\<rparr>)
   \<and> calculateSavings (lit (89 / 10)) (Fin 12) =
        \<lparr>savedKg = lit (31 / 10), percentage = lit (2583 / 100)\<rparr>
   \<and> (y \<noteq> 0 \<and> y < x \<longrightarrow>
        is_neg (savedKg (calculateSavings (Fin x) (Fin y)))
        \<and> nle (savedKg (calculateSavings (Fin x) (Fin y))) (Fin 0))
   \<and> (y \<noteq> 0 \<and> y + 1 / 100 \<le> x \<longrightarrow>
        nlt (savedKg (calculateSavings (Fin x) (Fin y))) (Fin 0))
   \<and> (0 < y \<and> y < x \<longrightarrow>
        is_neg (percentage (calculateSavings (Fin x) (Fin y)))
        \<and> nle (percentage (calculateSavings (Fin x) (Fin y))) (Fin 0))"
proof (intro conjI impI)
  assume "\<not> is_zero b"
  then show "calculateSavings e b =
        \<lparr>savedKg = Math_round2 (fsub b e),
         percentage =
           fdiv (Math_round (fmul (fdiv (Math_round2 (fsub b e)) b) (Fin 10000))) (Fin 100)\<rparr>"
    by (simp add: calculateSavings_def Math_round2_def Let_def)
next
  have "savedKg (calculateSavings (lit (89 / 10)) (Fin 12)) = lit (31 / 10)" by code_simp
  moreover have "percentage (calculateSavings (lit (89 / 10)) (Fin 12)) = lit (2583 / 100)"
    by code_simp
  ultimately show "calculateSavings (lit (89 / 10)) (Fin 12) =
        \<lparr>savedKg = lit (31 / 10), percentage = lit (2583 / 100)\<rparr>"
    by (cases "calculateSavings (lit (89 / 10)) (Fin 12)") simp
next
  assume h: "y \<noteq> 0 \<and> y < x"
  then show s: "is_neg (savedKg (calculateSavings (Fin x) (Fin y)))"
    by (simp add: calculateSavings_def Let_def savedKg_sign flip: Math_round2_def)
  then show "nle (savedKg (calculateSavings (Fin x) (Fin y))) (Fin 0)" by (rule is_neg_nle)
next
  assume "y \<noteq> 0 \<and> y + 1 / 100 \<le> x"
  then show "nlt (savedKg (calculateSavings (Fin x) (Fin y))) (Fin 0)"
    by (simp add: calculateSavings_def Let_def savedKg_negative flip: Math_round2_def)
next
  assume h: "0 < y \<and> y < x"
  then have "is_neg (Math_round2 (fsub (Fin y) (Fin x)))" by (simp add: savedKg_sign)
  then have "is_neg (fdiv (Math_round
      (fmul (fdiv (Math_round2 (fsub (Fin y) (Fin x))) (Fin y)) (Fin 10000))) (Fin 100))"
    using h by (simp add: is_neg_fdiv_pos is_neg_Math_round is_neg_fmul_pos)
  then show p: "is_neg (percentage (calculateSavings (Fin x) (Fin y)))"
    using h by (simp add: calculateSavings_def Let_def flip: Math_round2_def)
  then show "nle (percentage (calculateSavings (Fin x) (Fin y))) (Fin 0)" by (rule is_neg_nle)
qed

theorem calculateSavings_two_step_witness:
  "\<not> is_zero (Fin 12) \<and> (12::rat) \<noteq> 0 \<and> (0::rat) < 12 \<and> (12::rat) + 1 / 100 \<le> 1201 / 100
   \<and> calculateSavings (Fin (1201 / 100)) (Fin 12) =
        \<lparr>savedKg = Math_round2 (fsub (Fin 12) (Fin (1201 / 100))),
         percentage = fdiv (Math_round (fmul (fdiv (Math_round2
            (fsub (Fin 12) (Fin (1201 / 100)))) (Fin 12)) (Fin 10000))) (Fin 100)\<rparr>
   \<and> nlt (savedKg (calculateSavings (Fin (1201 / 100)) (Fin 12))) (Fin 0)
   \<and> nle (percentage (calculateSavings (Fin (1201 / 100)) (Fin 12))) (Fin 0)"
proof -
  have "\<not> is_zero (Fin 12)" and "(12::rat) \<noteq> 0" and "(0::rat) < 12"
    and "(12::rat) < 1201 / 100" and "(12::rat) + 1 / 100 \<le> 1201 / 100"
    by simp_all
  then show ?thesis
    using calculateSavings_two_step [of "Fin 12" "Fin (1201 / 100)" 12 "1201 / 100"]
    by blast
qed

text \<open>
  C3 as stated fails. An emission of 12.001 exceeds the baseline 12, and both values are
  \<open>-0\<close>, not negative. An emission of -8 exceeds the baseline -12, and the percentage is
  positive. And \<open>savedKg\<close> is not \<open>round2\<close> with the tie going away from zero, as the
  specification defines it: for 1.125 against 1 it is -0.12, not -0.13.
\<close>

theorem calculateSavings_not_negative:
  "nlt (Fin 12) (lit (12001 / 1000))
   \<and> savedKg (calculateSavings (lit (12001 / 1000)) (Fin 12)) = NegZero
   \<and> percentage (calculateSavings (lit (12001 / 1000)) (Fin 12)) = NegZero
   \<and> \<not> nlt (savedKg (calculateSavings (lit (12001 / 1000)) (Fin 12))) (Fin 0)
   \<and> \<not> nlt (percentage (calculateSavings (lit (12001 / 1000)) (Fin 12))) (Fin 0)
   \<and> nlt (Fin (- 12)) (Fin (- 8))
   \<and> savedKg (calculateSavings (Fin (- 8)) (Fin (- 12))) = Fin (- 4)
   \<and> percentage (calculateSavings (Fin (- 8)) (Fin (- 12))) = lit (3333 / 100)
   \<and> \<not> nlt (percentage (calculateSavings (Fin (- 8)) (Fin (- 12)))) (Fin 0)
   \<and> savedKg (calculateSavings (Fin (9 / 8)) (Fin 1)) = lit (- (12 / 100))
   \<and> round2_spec (fsub (Fin 1) (Fin (9 / 8))) = lit (- (13 / 100))
   \<and> lit (- (12 / 100)) \<noteq> lit (- (13 / 100))"
  by code_simp

section \<open>calculateCarbonCredits and estimateCreditPrice\<close>




section \<open>calculateAllModes: the baseline\<close>

lemma insert_result_not_Nil: "insert_result x ys \<noteq> []"
  by (cases ys) simp_all

lemma sort_results_Nil_iff: "sort_results xs = [] \<longleftrightarrow> xs = []"
  by (cases xs) (simp_all add: sort_results_def insert_result_not_Nil)

lemma calculateAllModes_empty_iff:
  "calculateAllModes x = [] \<longleftrightarrow> is_zero (calculateEmission x ''car'')"
  by (simp add: calculateAllModes_def Let_def sort_results_Nil_iff Object_keys_def
      EMISSION_FACTORS_def)

lemma car_known: "map_of EMISSION_FACTORS ''car'' = Some (12 / 100)"
  by (simp add: EMISSION_FACTORS_def)

lemma lit_car: "lit (12 / 100) = Fin (1080863910568919 / 9007199254740992)"
  by code_simp

lemma car_emission:
  "calculateEmission (Fin d) ''car'' =
     (if d < 0 then Fin 0
      else Math_round2 (fmul (Fin d) (Fin (1080863910568919 / 9007199254740992))))"
proof -
  have "calculateEmission (Fin d) ''car'' =
      (if nlt (Fin d) (Fin 0) then Fin 0 else Math_round2 (fmul (Fin d) (lit (12 / 100))))"
    by (rule calculateEmission_known [OF car_known])
  then show ?thesis unfolding lit_car by simp
qed

lemma rnd_below_1:
  "rnd (1 / 24) = 6004799503160661 / 144115188075855872"
  by code_simp

lemma rnd_below_2:
  "rnd (6004799503160661 / 144115188075855872 * (1080863910568919 / 9007199254740992))
     = 2882303761517117 / 576460752303423488"
  by code_simp

lemma rnd_below_3:
  "rnd (2882303761517117 / 576460752303423488 * 100) = 9007199254740991 / 18014398509481984"
  by code_simp

lemma car_zero_below:
  assumes "is_double d" and "0 \<le> d" and "d < 1 / 24"
  shows "calculateEmission (Fin d) ''car'' = Fin 0"
proof -
  define F :: rat where "F = 1080863910568919 / 9007199254740992"
  define D0 :: rat where "D0 = 6004799503160661 / 144115188075855872"
  define P0 :: rat where "P0 = 2882303761517117 / 576460752303423488"
  define Q0 :: rat where "Q0 = 9007199254740991 / 18014398509481984"
  have r2: "rnd (D0 * F) = P0" unfolding D0_def F_def P0_def by (rule rnd_below_2)
  have r3: "rnd (P0 * 100) = Q0" unfolding P0_def Q0_def by (rule rnd_below_3)
  have P0: "P0 < overflow_threshold"
    using one_less_overflow_threshold by (simp add: P0_def)
  have Q0: "Q0 < overflow_threshold"
    using one_less_overflow_threshold by (simp add: Q0_def)
  have "rnd d \<le> rnd (1 / 24)" using assms(3) by (intro rnd_mono) simp
  then have "d \<le> D0" using assms(1) by (simp add: is_double_def rnd_below_1 D0_def)
  then have u0: "upto D0 (Fin d)" using assms(2) by simp
  have u1: "upto P0 (fmul (Fin d) (Fin F))"
    by (rule fmul_upto [OF u0 _ r2 P0]) (simp add: F_def)
  have "upto Q0 (fmul (fmul (Fin d) (Fin F)) (Fin 100))"
    by (rule fmul_upto [OF u1 _ r3 Q0]) simp
  then have "Math_round (fmul (fmul (Fin d) (Fin F)) (Fin 100)) = Fin 0"
    by (rule Math_round_upto) (simp add: Q0_def)
  then have "Math_round2 (fmul (Fin d) (Fin F)) = Fin 0"
    by (simp add: Math_round2_def fdiv_def signed_zero_def)
  then show ?thesis using assms(2) by (simp add: car_emission F_def)
qed

lemma rnd_above_1:
  "rnd (1 / 24 * (1080863910568919 / 9007199254740992))
     = 5764607523034235 / 1152921504606846976"
  by code_simp

lemma rnd_above_2: "rnd (5764607523034235 / 1152921504606846976 * 100) = 1 / 2"
  by code_simp

lemma rnd_above_3: "rnd (1 / 100) = 5764607523034235 / 576460752303423488"
  by code_simp

lemma car_nonzero_above:
  assumes "1 / 24 \<le> d"
  shows "\<not> is_zero (calculateEmission (Fin d) ''car'')"
proof -
  define F :: rat where "F = 1080863910568919 / 9007199254740992"
  define P1 :: rat where "P1 = 5764607523034235 / 1152921504606846976"
  define D :: rat where "D = 5764607523034235 / 576460752303423488"
  have F: "0 < F" by (simp add: F_def)
  have P1: "0 < P1" by (simp add: P1_def)
  have D: "0 < D" by (simp add: D_def)
  have r1: "rnd (1 / 24 * F) = P1" unfolding F_def P1_def by (rule rnd_above_1)
  have r2: "rnd (P1 * 100) = 1 / 2" unfolding P1_def by (rule rnd_above_2)
  have r3: "rnd (1 / 100) = D" unfolding D_def by (rule rnd_above_3)
  have a0: "at_least (1 / 24) (Fin d)" using assms by simp
  have a1: "at_least P1 (fmul (Fin d) (Fin F))"
    by (rule fmul_at_least [OF a0 _ F r1 P1]) simp
  have a2: "at_least (1 / 2) (fmul (fmul (Fin d) (Fin F)) (Fin 100))"
    by (rule fmul_at_least [OF a1 P1 _ r2]) simp_all
  have "at_least (of_int 1) (Math_round (fmul (fmul (Fin d) (Fin F)) (Fin 100)))"
    by (rule Math_round_at_least [OF a2]) simp_all
  then have a3: "at_least 1 (Math_round (fmul (fmul (Fin d) (Fin F)) (Fin 100)))" by simp
  have "at_least D (fdiv (Math_round (fmul (fmul (Fin d) (Fin F)) (Fin 100))) (Fin 100))"
    by (rule fdiv_at_least [OF a3 _ _ r3 D]) simp_all
  then have "\<not> is_zero (Math_round2 (fmul (Fin d) (Fin F)))"
    using D unfolding Math_round2_def by (rule at_least_not_zero)
  moreover have "\<not> d < 0" using assms by simp
  ultimately show ?thesis by (simp add: car_emission F_def)
qed

text \<open>
  C5, as amended. The baseline of \<open>calculateAllModes\<close> is the emission of the car; it
  is 0 when the distance is 0, and whenever it is 0 (or \<open>-0\<close>, as for the distance
  \<open>-0\<close>) the result is the empty list, the test coming before every division.
  \<open>calculateAllModes 0\<close> is empty.
\<close>

theorem calculateAllModes_zero_baseline:
  "calculateEmission (Fin 0) ''car'' = Fin 0
   \<and> (calculateEmission x ''car'' = Fin 0 \<longrightarrow> calculateAllModes x = [])
   \<and> calculateAllModes (Fin 0) = []
   \<and> (is_zero (calculateEmission x ''car'') \<longrightarrow> calculateAllModes x = [])
   \<and> calculateAllModes NegZero = []"
proof -
  have a: "calculateEmission (Fin 0) ''car'' = Fin 0" by code_simp
  have b: "is_zero (calculateEmission NegZero ''car'')" by code_simp
  show ?thesis using a b by (simp add: calculateAllModes_empty_iff)
qed

theorem calculateAllModes_zero_baseline_witness:
  "calculateEmission (lit (1 / 50)) ''car'' = Fin 0 \<and> calculateAllModes (lit (1 / 50)) = []"
proof -
  have "calculateEmission (lit (1 / 50)) ''car'' = Fin 0" by code_simp
  then show ?thesis using calculateAllModes_zero_baseline [of "lit (1 / 50)"] by simp
qed

text \<open>
  C5 as stated fails: the baseline is 0 at the distance 0.01, which is not 0.
\<close>

theorem baseline_zero_at_nonzero_distance:
  "calculateEmission (lit (1 / 100)) ''car'' = Fin 0 \<and> \<not> is_zero (lit (1 / 100))
   \<and> lit (1 / 100) \<noteq> Fin 0"
  by code_simp

section \<open>Invalid input\<close>

text \<open>
  C6. \<open>toString\<close> is not a transport mode, and \<open>calculateEmission\<close> does not return
  0 for it: \<open>EMISSION_FACTORS["toString"]\<close> is the function inherited from
  \<open>Object.prototype\<close>, not \<open>undefined\<close>, so the test for an unknown mode lets it
  through and the product is \<open>NaN\<close>.
\<close>

theorem calculateEmission_inherited_key:
  "''toString'' \<notin> set (Object_keys EMISSION_FACTORS)
   \<and> calculateEmission (Fin 100) ''toString'' = NaN
   \<and> calculateEmission (Fin 100) ''toString'' \<noteq> Fin 0"
proof -
  have "get_property EMISSION_FACTORS ''toString'' = Obj"
    by (simp add: get_property_def EMISSION_FACTORS_def Object_prototype_def)
  then have "calculateEmission (Fin 100) ''toString'' = NaN"
    by (simp add: calculateEmission_def fmul_def fdiv_def)
  then show ?thesis by (simp add: Object_keys_def EMISSION_FACTORS_def)
qed

text \<open>The other defaults for invalid input are the ones the source returns.\<close>

lemma invalid_input_defaults:
  "d < 0 \<Longrightarrow> calculateEmission (Fin d) m = Fin 0"
  "get_property EMISSION_FACTORS m = Undefined \<Longrightarrow> calculateEmission x m = Fin 0"
  "d < 0 \<Longrightarrow> calculateCarbonCredits (Fin d) = Fin 0"
  "d < 0 \<Longrightarrow> estimateCreditPrice (Fin d) = \<lparr>min_price = Fin 0, max_price = Fin 0, average = Fin 0\<rparr>"
  "is_zero b \<Longrightarrow> calculateSavings x b = \<lparr>savedKg = Fin 0, percentage = Fin 0\<rparr>"
  by (simp_all add: calculateEmission_def calculateCarbonCredits_def estimateCreditPrice_def
      calculateSavings_def)

section \<open>calculateAllModes: the empty region\<close>

lemma round2_car_zero: "round2 (12 / 100 * d) = 0 \<Longrightarrow> d < 1 / 24"
proof -
  assume "round2 (12 / 100 * d) = 0"
  then have "\<lfloor>d * 12 + 1 / 2\<rfloor> = 0" by (simp add: round2_def mult.commute)
  then have "d * 12 + 1 / 2 < 1" by (simp add: floor_eq_iff)
  then show ?thesis by simp
qed

text \<open>
  C10. For a binary64 distance \<open>d\<close>, \<open>calculateAllModes\<close> is empty exactly when
  \<open>d < 1/24\<close> km: this includes every distance \<open>d\<close> with \<open>round2 (0.12 * d) = 0\<close> and
  every negative one. There, and so for distances that are not 0, the emission of the car
  is 0 (rounded to 0 from 0 up to 1/24, and 0 by the guard for every negative distance).
  The largest binary64 value below 1/24 is the rounding of 1/24, and from it the products
  round to a value below 1/2; from 1/24 on they round to 1/2 or more.
\<close>

theorem calculateAllModes_empty_region:
  "(is_double d \<longrightarrow> (calculateAllModes (Fin d) = [] \<longleftrightarrow> d < 1 / 24))
   \<and> (is_double d \<and> d < 1 / 24 \<longrightarrow> calculateEmission (Fin d) ''car'' = Fin 0)
   \<and> (is_double d \<and> round2 (12 / 100 * d) = 0 \<longrightarrow> calculateAllModes (Fin d) = [])
   \<and> (d < 0 \<longrightarrow> calculateAllModes (Fin d) = [])"
proof -
  have n: "calculateEmission (Fin d) ''car'' = Fin 0" if "d < 0"
    using that by (simp add: car_emission)
  have a: "calculateEmission (Fin d) ''car'' = Fin 0" if "is_double d" and "d < 1 / 24"
    using that n car_zero_below [of d] by (cases "d < 0") simp_all
  have b: "calculateAllModes (Fin d) \<noteq> []" if "\<not> d < 1 / 24"
    using that car_nonzero_above [of d] by (simp add: calculateAllModes_empty_iff)
  have c: "calculateAllModes (Fin d) = []" if "calculateEmission (Fin d) ''car'' = Fin 0"
    using that by (simp add: calculateAllModes_empty_iff)
  show ?thesis using a b c n round2_car_zero [of d] by blast
qed

theorem calculateAllModes_empty_region_witness:
  "is_double (1 / 32) \<and> (1 / 32 :: rat) < 1 / 24 \<and> (1 / 32 :: rat) \<noteq> 0
   \<and> calculateAllModes (Fin (1 / 32)) = []
   \<and> calculateEmission (Fin (1 / 32)) ''car'' = Fin 0
   \<and> round2 (12 / 100 * (1 / 32)) = 0
   \<and> (- 3 :: rat) < 0 \<and> calculateAllModes (Fin (- 3)) = []"
proof -
  have "is_double (1 / 32)" by code_simp
  moreover have "(1 / 32 :: rat) < 1 / 24" and "(1 / 32 :: rat) \<noteq> 0" and "(- 3 :: rat) < 0"
    by simp_all
  moreover have "round2 (12 / 100 * (1 / 32)) = 0" by code_simp
  ultimately show ?thesis
    using calculateAllModes_empty_region [of "1 / 32"] calculateAllModes_empty_region [of "- 3"]
    by blast
qed

section \<open>Strings: trim and toLowerCase\<close>

lemma is_white_space_code:
  "is_white_space c \<longleftrightarrow> (of_char c :: nat) \<in> {9, 10, 11, 12, 13, 32, 160}"
proof -
  have eq: "c = d \<longleftrightarrow> (of_char c :: nat) = of_char d" for d by simp
  show ?thesis unfolding is_white_space_def insert_iff empty_iff
    by (simp add: eq del: of_char_eq_iff)
qed

lemma lower_char_code:
  "(of_char (lower_char c) :: nat) =
     (let n = of_char c in
      if (0x41 \<le> n \<and> n \<le> 0x5A) \<or> (0xC0 \<le> n \<and> n \<le> 0xDE \<and> n \<noteq> 0xD7)
      then n + 0x20 else n)"
  by (simp add: lower_char_def Let_def)

lemma lower_char_idem: "lower_char (lower_char c) = lower_char c"
proof -
  have "(of_char (lower_char (lower_char c)) :: nat) = of_char (lower_char c)"
    unfolding lower_char_code [of "lower_char c"] unfolding lower_char_code [of c]
    by (simp add: Let_def)
  then show ?thesis by simp
qed

lemma white_space_lower_char: "is_white_space (lower_char c) = is_white_space c"
  unfolding is_white_space_code lower_char_code by (auto simp: Let_def)

lemma toLowerCase_idem: "toLowerCase (toLowerCase s) = toLowerCase s"
  by (simp add: toLowerCase_def lower_char_idem)

lemma trim_toLowerCase: "trim (toLowerCase s) = toLowerCase (trim s)"
proof -
  have "is_white_space \<circ> lower_char = is_white_space"
    by (rule ext) (simp add: white_space_lower_char)
  then show ?thesis
    by (simp add: trim_def toLowerCase_def dropWhile_map rev_map)
qed

lemma trim_pad:
  assumes "list_all is_white_space u" and "list_all is_white_space v"
  shows "trim (u @ a @ v) = trim a"
proof -
  have u: "dropWhile is_white_space (u @ a @ v) = dropWhile is_white_space (a @ v)"
    using assms(1) by (simp add: list_all_iff)
  have v: "dropWhile is_white_space (rev v @ xs) = dropWhile is_white_space xs" for xs
    using assms(2) by (intro dropWhile_append2) (simp add: list_all_iff)
  show ?thesis
  proof (cases "list_all is_white_space a")
    case True
    have 1: "dropWhile is_white_space (a @ v) = []"
      using True assms(2) by (simp add: list_all_iff)
    have 2: "dropWhile is_white_space a = []"
      using True by (simp add: list_all_iff)
    show ?thesis by (simp add: trim_def u 1 2)
  next
    case False
    then obtain x where "x \<in> set a" and "\<not> is_white_space x"
      by (auto simp: list_all_iff)
    then have "dropWhile is_white_space (a @ v) = dropWhile is_white_space a @ v"
      by (rule dropWhile_append1)
    then show ?thesis by (simp add: trim_def u v)
  qed
qed

lemma trim_decompose:
  "\<exists>u v. list_all is_white_space u \<and> list_all is_white_space v \<and> s = u @ trim s @ v"
proof -
  let ?t = "dropWhile is_white_space s"
  have "s = takeWhile is_white_space s @ ?t" by simp
  moreover have "?t = rev (dropWhile is_white_space (rev ?t)) @ rev (takeWhile is_white_space (rev ?t))"
    by (metis rev_append rev_rev_ident takeWhile_dropWhile_id)
  then have "?t = trim s @ rev (takeWhile is_white_space (rev ?t))"
    by (simp only: trim_def)
  ultimately have "s = takeWhile is_white_space s @ trim s @ rev (takeWhile is_white_space (rev ?t))"
    by simp
  moreover have "list_all is_white_space (takeWhile is_white_space s)"
    by (auto simp: list_all_iff dest: set_takeWhileD)
  moreover have "list_all is_white_space (rev (takeWhile is_white_space (rev ?t)))"
    by (auto simp: list_all_iff dest: set_takeWhileD)
  ultimately show ?thesis by blast
qed

lemma trim_idem: "trim (trim s) = trim s"
proof -
  obtain u v where "list_all is_white_space u" "list_all is_white_space v" "s = u @ trim s @ v"
    using trim_decompose by blast
  then show ?thesis using trim_pad [of u v "trim s"] by simp
qed

lemma normalize_lower: "toLowerCase (trim (toLowerCase s)) = toLowerCase (trim s)"
  by (simp add: trim_toLowerCase toLowerCase_idem)

section \<open>RoutesDB.findDistance\<close>

lemma findDistance_matches:
  "findDistance rs a b =
     (case find (\<lambda>r. matches r a b) rs of
        Some r \<Rightarrow> Some (distanceKm r)
      | None \<Rightarrow> (case find (\<lambda>r. matches r b a) rs of
                   Some r \<Rightarrow> Some (distanceKm r) | None \<Rightarrow> None))"
  by (simp only: findDistance_def matches_def Let_def)

lemma find_Some_set: "find P xs = Some x \<Longrightarrow> x \<in> set xs \<and> P x"
  by (induction xs) (auto split: if_splits)

lemma findDistance_None_iff:
  "findDistance rs a b = None \<longleftrightarrow> \<not> (\<exists>r\<in>set rs. matches r a b \<or> matches r b a)"
  by (auto simp: findDistance_matches find_None_iff split: option.splits dest: find_Some_set)

lemma findDistance_Some:
  assumes "findDistance rs a b = Some d"
  shows "\<exists>r\<in>set rs. (matches r a b \<or> matches r b a) \<and> distanceKm r = d"
  using assms
  by (auto simp: findDistance_matches split: option.splits dest: find_Some_set)

lemma findDistance_pad:
  assumes "list_all is_white_space u" and "list_all is_white_space v"
  shows "findDistance rs (u @ a @ v) b = findDistance rs a b"
    and "findDistance rs a (u @ b @ v) = findDistance rs a b"
  using assms by (simp_all add: findDistance_def trim_pad)

lemma findDistance_lower:
  "findDistance rs (toLowerCase a) b = findDistance rs a b"
  "findDistance rs a (toLowerCase b) = findDistance rs a b"
  by (simp_all add: findDistance_def normalize_lower)

lemma findDistance_SP_RJ:
  "findDistance routes ('' S'' @ [CHR 0xE3] @ ''o Paulo, SP '') ''rio de janeiro, rj'' = Some (Fin 430)"
  "findDistance routes (''S'' @ [CHR 0xE3] @ ''o Paulo, SP'') ''Rio de Janeiro, RJ'' = Some (Fin 430)"
  by code_simp+

text \<open>
  C7. \<open>findDistance\<close> is \<open>null\<close> exactly when no route matches the two names, forward
  or reversed, and a distance it returns is the one stored with a matching route; a route
  matches when its names, lowercased, equal the trimmed and lowercased inputs. So white
  space around an input and the case of an input do not change the result, and the
  lookup of \<open>" Sao Paulo, SP "\<close>, \<open>"rio de janeiro, rj"\<close> equals the one of the
  names as the catalog writes them, 430.
\<close>

theorem findDistance_normalised:
  "(findDistance rs a b = None \<longleftrightarrow> \<not> (\<exists>r\<in>set rs. matches r a b \<or> matches r b a))
   \<and> (findDistance rs a b = Some d \<longrightarrow>
        (\<exists>r\<in>set rs. (matches r a b \<or> matches r b a) \<and> distanceKm r = d))
   \<and> (list_all is_white_space u \<and> list_all is_white_space v \<longrightarrow>
        findDistance rs (u @ a @ v) b = findDistance rs a b
        \<and> findDistance rs a (u @ b @ v) = findDistance rs a b)
   \<and> findDistance rs (toLowerCase a) b = findDistance rs a b
   \<and> findDistance rs a (toLowerCase b) = findDistance rs a b
   \<and> findDistance routes ('' S'' @ [CHR 0xE3] @ ''o Paulo, SP '') ''rio de janeiro, rj''
       = findDistance routes (''S'' @ [CHR 0xE3] @ ''o Paulo, SP'') ''Rio de Janeiro, RJ''
   \<and> findDistance routes (''S'' @ [CHR 0xE3] @ ''o Paulo, SP'') ''Rio de Janeiro, RJ''
       = Some (Fin 430)"
proof (intro conjI impI)
  show "findDistance rs a b = None \<longleftrightarrow> \<not> (\<exists>r\<in>set rs. matches r a b \<or> matches r b a)"
    by (rule findDistance_None_iff)
next
  assume "findDistance rs a b = Some d"
  then show "\<exists>r\<in>set rs. (matches r a b \<or> matches r b a) \<and> distanceKm r = d"
    by (rule findDistance_Some)
next
  assume "list_all is_white_space u \<and> list_all is_white_space v"
  then show "findDistance rs (u @ a @ v) b = findDistance rs a b"
    by (simp add: findDistance_pad)
next
  assume "list_all is_white_space u \<and> list_all is_white_space v"
  then show "findDistance rs a (u @ b @ v) = findDistance rs a b"
    by (simp add: findDistance_pad)
next
  show "findDistance rs (toLowerCase a) b = findDistance rs a b"
    by (rule findDistance_lower)
next
  show "findDistance rs a (toLowerCase b) = findDistance rs a b"
    by (rule findDistance_lower)
next
  show "findDistance routes ('' S'' @ [CHR 0xE3] @ ''o Paulo, SP '') ''rio de janeiro, rj''
       = findDistance routes (''S'' @ [CHR 0xE3] @ ''o Paulo, SP'') ''Rio de Janeiro, RJ''"
    by (simp only: findDistance_SP_RJ)
next
  show "findDistance routes (''S'' @ [CHR 0xE3] @ ''o Paulo, SP'') ''Rio de Janeiro, RJ''
       = Some (Fin 430)"
    by (rule findDistance_SP_RJ)
qed

theorem findDistance_normalised_witness:
  "list_all is_white_space '' ''
   \<and> findDistance routes ''campinas, sp'' (''S'' @ [CHR 0xE3] @ ''o Paulo, SP'') = Some (Fin 95)
   \<and> findDistance routes ('' '' @ ''campinas, sp'' @ '' '') (''S'' @ [CHR 0xE3] @ ''o Paulo, SP'')
       = Some (Fin 95)
   \<and> (\<exists>r\<in>set routes.
        (matches r ''campinas, sp'' (''S'' @ [CHR 0xE3] @ ''o Paulo, SP'')
         \<or> matches r (''S'' @ [CHR 0xE3] @ ''o Paulo, SP'') ''campinas, sp'')
        \<and> distanceKm r = Fin 95)"
proof -
  have w: "list_all is_white_space '' ''" by (simp add: is_white_space_def)
  have h: "findDistance routes ''campinas, sp'' (''S'' @ [CHR 0xE3] @ ''o Paulo, SP'') = Some (Fin 95)"
    by code_simp
  note t = findDistance_normalised
    [of routes "''campinas, sp''" "''S'' @ [CHR 0xE3] @ ''o Paulo, SP''" "Fin 95" "'' ''" "'' ''"]
  from t h have e: "\<exists>r\<in>set routes.
        (matches r ''campinas, sp'' (''S'' @ [CHR 0xE3] @ ''o Paulo, SP'')
         \<or> matches r (''S'' @ [CHR 0xE3] @ ''o Paulo, SP'') ''campinas, sp'')
        \<and> distanceKm r = Fin 95"
    by blast
  from t w have "findDistance routes ('' '' @ ''campinas, sp'' @ '' '') (''S'' @ [CHR 0xE3] @ ''o Paulo, SP'')
       = findDistance routes ''campinas, sp'' (''S'' @ [CHR 0xE3] @ ''o Paulo, SP'')"
    by blast
  with h have p: "findDistance routes ('' '' @ ''campinas, sp'' @ '' '') (''S'' @ [CHR 0xE3] @ ''o Paulo, SP'')
       = Some (Fin 95)"
    by (simp only:)
  show ?thesis using w h p e by (intro conjI)
qed

section \<open>The catalog is symmetric\<close>

lemma find_unique:
  assumes "x \<in> set xs" and "P x" and "\<And>y. y \<in> set xs \<Longrightarrow> P y \<Longrightarrow> y = x"
  shows "find P xs = Some x"
proof (cases "find P xs")
  case None
  then show ?thesis using assms(1,2) by (auto simp: find_None_iff)
next
  case (Some y)
  then have "y \<in> set xs \<and> P y" by (rule find_Some_set)
  then show ?thesis using Some assms(3) by auto
qed

lemma findDistance_both_ways:
  assumes keys: "distinct (map route_key rs @ map (prod.swap \<circ> route_key) rs)"
    and r: "r \<in> set rs"
    and trimmed: "trim (origin r) = origin r" "trim (destination r) = destination r"
  shows "findDistance rs (origin r) (destination r) = Some (distanceKm r)"
    and "findDistance rs (destination r) (origin r) = Some (distanceKm r)"
proof -
  have fwd: "matches x (origin r) (destination r) \<longleftrightarrow> route_key x = route_key r" for x
    by (simp add: matches_def route_key_def trimmed)
  have bwd: "matches x (destination r) (origin r) \<longleftrightarrow> route_key x = prod.swap (route_key r)" for x
    by (simp add: matches_def route_key_def trimmed)
  have inj: "inj_on route_key (set rs)"
    using keys by (simp add: distinct_map)
  have same: "x = r" if "x \<in> set rs" and "route_key x = route_key r" for x
    using inj that r by (auto dest: inj_onD)
  have none: "route_key x \<noteq> prod.swap (route_key r)" if "x \<in> set rs" for x
  proof
    assume "route_key x = prod.swap (route_key r)"
    moreover have "route_key x \<in> set (map route_key rs)" using that by simp
    moreover have "prod.swap (route_key r) \<in> set (map (prod.swap \<circ> route_key) rs)"
      using r by (simp add: image_iff) blast
    ultimately show False using keys by auto
  qed
  have f: "find (\<lambda>x. matches x (origin r) (destination r)) rs = Some r"
    by (rule find_unique) (use r same in \<open>simp_all add: fwd\<close>)
  have n: "find (\<lambda>x. matches x (destination r) (origin r)) rs = None"
    using none by (simp add: find_None_iff bwd)
  show "findDistance rs (origin r) (destination r) = Some (distanceKm r)"
    by (simp add: findDistance_matches f)
  show "findDistance rs (destination r) (origin r) = Some (distanceKm r)"
    by (simp add: findDistance_matches f n)
qed

lemma routes_keys: "map route_key routes =
     [(''s'' @ [CHR 0xE3] @ ''o paulo, sp'', ''rio de janeiro, rj''),
      (''s'' @ [CHR 0xE3] @ ''o paulo, sp'', ''bras'' @ [CHR 0xED] @ ''lia, df''),
      (''rio de janeiro, rj'', ''bras'' @ [CHR 0xED] @ ''lia, df''),
      (''s'' @ [CHR 0xE3] @ ''o paulo, sp'', ''campinas, sp''),
      (''rio de janeiro, rj'', ''niter'' @ [CHR 0xF3] @ ''i, rj''),
      (''belo horizonte, mg'', ''ouro preto, mg''),
      (''s'' @ [CHR 0xE3] @ ''o paulo, sp'', ''belo horizonte, mg''),
      (''rio de janeiro, rj'', ''belo horizonte, mg''),
      (''s'' @ [CHR 0xE3] @ ''o paulo, sp'', ''sorocaba, sp''),
      (''s'' @ [CHR 0xE3] @ ''o paulo, sp'', ''guarulhos, sp''),
      (''manaus, am'', ''rio branco, ac''),
      (''bel'' @ [CHR 0xE9] @ ''m, pa'', ''manaus, am''),
      (''bel'' @ [CHR 0xE9] @ ''m, pa'', ''bras'' @ [CHR 0xED] @ ''lia, df''),
      (''manaus, am'', ''bras'' @ [CHR 0xED] @ ''lia, df''),
      (''salvador, ba'', ''bras'' @ [CHR 0xED] @ ''lia, df''),
      (''recife, pe'', ''salvador, ba''),
      (''fortaleza, ce'', ''bras'' @ [CHR 0xED] @ ''lia, df''),
      (''natal, rn'', ''recife, pe''),
      (''macei'' @ [CHR 0xF3] @ '', al'', ''recife, pe''),
      (''s'' @ [CHR 0xE3] @ ''o lu'' @ [CHR 0xED] @ ''s, ma'', ''bras'' @ [CHR 0xED] @ ''lia, df''),
      (''teresina, pi'', ''bras'' @ [CHR 0xED] @ ''lia, df''),
      (''curitiba, pr'', ''bras'' @ [CHR 0xED] @ ''lia, df''),
      (''rio de janeiro, rj'', ''curitiba, pr''),
      (''s'' @ [CHR 0xE3] @ ''o paulo, sp'', ''curitiba, pr''),
      (''porto alegre, rs'', ''curitiba, pr''),
      (''curitiba, pr'', ''londrina, pr''),
      (''bras'' @ [CHR 0xED] @ ''lia, df'', ''porto alegre, rs''),
      (''santa maria, rs'', ''porto alegre, rs''),
      (''florian'' @ [CHR 0xF3] @ ''polis, sc'', ''porto alegre, rs''),
      (''bras'' @ [CHR 0xED] @ ''lia, df'', ''goi'' @ [CHR 0xE2] @ ''nia, go''),
      (''bras'' @ [CHR 0xED] @ ''lia, df'', ''cuiab'' @ [CHR 0xE1] @ '', mt''),
      (''goi'' @ [CHR 0xE2] @ ''nia, go'', ''s'' @ [CHR 0xE3] @ ''o paulo, sp''),
      (''campo grande, ms'', ''bras'' @ [CHR 0xED] @ ''lia, df''),
      (''cuiab'' @ [CHR 0xE1] @ '', mt'', ''goi'' @ [CHR 0xE2] @ ''nia, go''),
      (''santos, sp'', ''s'' @ [CHR 0xE3] @ ''o paulo, sp''),
      (''jundia'' @ [CHR 0xED] @ '', sp'', ''s'' @ [CHR 0xE3] @ ''o paulo, sp''),
      (''ribeir'' @ [CHR 0xE3] @ ''o preto, sp'', ''s'' @ [CHR 0xE3] @ ''o paulo, sp''),
      (''ara'' @ [CHR 0xE7] @ ''atuba, sp'', ''s'' @ [CHR 0xE3] @ ''o paulo, sp''),
      (''vit'' @ [CHR 0xF3] @ ''ria, es'', ''rio de janeiro, rj'')]"
  by code_simp

lemma routes_keys_distinct:
  "distinct (map route_key routes @ map (prod.swap \<circ> route_key) routes)"
  unfolding map_map [symmetric] routes_keys by simp

lemma routes_trimmed:
  "list_all (\<lambda>r. trim (origin r) = origin r \<and> trim (destination r) = destination r) routes"
  by code_simp

text \<open>
  C2. For every route of the catalog, \<open>findDistance\<close> returns the stored distance for
  its two names in both orders.
\<close>

theorem findDistance_symmetric:
  "\<forall>r\<in>set routes.
     findDistance routes (origin r) (destination r) = Some (distanceKm r)
     \<and> findDistance routes (destination r) (origin r) = Some (distanceKm r)"
proof
  fix r assume r: "r \<in> set routes"
  then have "trim (origin r) = origin r" and "trim (destination r) = destination r"
    using routes_trimmed by (simp_all add: list_all_iff)
  with routes_keys_distinct r
  show "findDistance routes (origin r) (destination r) = Some (distanceKm r)
     \<and> findDistance routes (destination r) (origin r) = Some (distanceKm r)"
    by (simp add: findDistance_both_ways)
qed

theorem findDistance_symmetric_witness:
  "\<lparr>origin = ''Manaus, AM'', destination = ''Rio Branco, AC'', distanceKm = Fin 1800\<rparr> \<in> set routes
   \<and> findDistance routes ''Manaus, AM'' ''Rio Branco, AC'' = Some (Fin 1800)
   \<and> findDistance routes ''Rio Branco, AC'' ''Manaus, AM'' = Some (Fin 1800)"
proof -
  have m: "\<lparr>origin = ''Manaus, AM'', destination = ''Rio Branco, AC'', distanceKm = Fin 1800\<rparr>
             \<in> set routes"
    by (simp add: routes_def)
  from findDistance_symmetric [THEN bspec, OF m] m show ?thesis by simp
qed

section \<open>RoutesDB.getAllCities\<close>

lemma set_Set_add: "set (Set_add x xs) = insert x (set xs)"
  by (auto simp: Set_add_def)

lemma distinct_Set_add: "distinct xs \<Longrightarrow> distinct (Set_add x xs)"
  by (simp add: Set_add_def)

lemma citiesSet_fold:
  "distinct acc \<Longrightarrow>
   distinct (foldl (\<lambda>citiesSet route. Set_add (destination route) (Set_add (origin route) citiesSet)) acc rs)
   \<and> set (foldl (\<lambda>citiesSet route. Set_add (destination route) (Set_add (origin route) citiesSet)) acc rs)
       = set acc \<union> origin ` set rs \<union> destination ` set rs"
proof (induction rs arbitrary: acc)
  case Nil
  then show ?case by simp
next
  case (Cons r rs)
  have "distinct (Set_add (destination r) (Set_add (origin r) acc))"
    using Cons.prems by (simp add: distinct_Set_add)
  from Cons.IH [OF this] show ?case by (auto simp: set_Set_add)
qed

text \<open>
  C9. \<open>getAllCities\<close> has no duplicates, is sorted in the lexicographic order of the
  code units, and holds exactly the names that are the origin or the destination of a
  route, so its length is the number of distinct names; the catalog has 32.
\<close>

theorem getAllCities_sorted_distinct:
  "distinct (getAllCities rs) \<and> sorted (getAllCities rs)
   \<and> set (getAllCities rs) = origin ` set rs \<union> destination ` set rs
   \<and> length (getAllCities rs) = card (origin ` set rs \<union> destination ` set rs)
   \<and> length (getAllCities routes) = 32"
proof -
  let ?s = "foldl (\<lambda>citiesSet route. Set_add (destination route) (Set_add (origin route) citiesSet)) [] rs"
  have s: "distinct ?s" "set ?s = origin ` set rs \<union> destination ` set rs"
    using citiesSet_fold [of "[]" rs] by simp_all
  have g: "getAllCities rs = sort ?s" by (simp add: getAllCities_def)
  have d: "distinct (getAllCities rs)" using s(1) by (simp add: g)
  have e: "set (getAllCities rs) = origin ` set rs \<union> destination ` set rs"
    using s(2) by (simp add: g)
  have "length (getAllCities rs) = card (set (getAllCities rs))"
    using d by (simp add: distinct_card)
  then have l: "length (getAllCities rs) = card (origin ` set rs \<union> destination ` set rs)"
    by (simp only: e)
  have c: "length (getAllCities routes) = 32" by code_simp
  show ?thesis using d e l c by (simp add: g)
qed

lemma getAllCities_routes: "getAllCities routes =
     [''Ara'' @ [CHR 0xE7] @ ''atuba, SP'',
      ''Belo Horizonte, MG'',
      ''Bel'' @ [CHR 0xE9] @ ''m, PA'',
      ''Bras'' @ [CHR 0xED] @ ''lia, DF'',
      ''Campinas, SP'',
      ''Campo Grande, MS'',
      ''Cuiab'' @ [CHR 0xE1] @ '', MT'',
      ''Curitiba, PR'',
      ''Florian'' @ [CHR 0xF3] @ ''polis, SC'',
      ''Fortaleza, CE'',
      ''Goi'' @ [CHR 0xE2] @ ''nia, GO'',
      ''Guarulhos, SP'',
      ''Jundia'' @ [CHR 0xED] @ '', SP'',
      ''Londrina, PR'',
      ''Macei'' @ [CHR 0xF3] @ '', AL'',
      ''Manaus, AM'',
      ''Natal, RN'',
      ''Niter'' @ [CHR 0xF3] @ ''i, RJ'',
      ''Ouro Preto, MG'',
      ''Porto Alegre, RS'',
      ''Recife, PE'',
      ''Ribeir'' @ [CHR 0xE3] @ ''o Preto, SP'',
      ''Rio Branco, AC'',
      ''Rio de Janeiro, RJ'',
      ''Salvador, BA'',
      ''Santa Maria, RS'',
      ''Santos, SP'',
      ''Sorocaba, SP'',
      ''S'' @ [CHR 0xE3] @ ''o Lu'' @ [CHR 0xED] @ ''s, MA'',
      ''S'' @ [CHR 0xE3] @ ''o Paulo, SP'',
      ''Teresina, PI'',
      ''Vit'' @ [CHR 0xF3] @ ''ria, ES'']"
  by code_simp

end
